theory Spec2Isabelle
  imports Complex_Main "HOL-Library.Sublist" "HOL-Library.Multiset"
begin

section \<open>The synthetic training data generator of EdgeNeuro\<close>

text \<open>
  A shallow embedding of \<^verbatim>\<open>scripts/generate_synthetic_training.py\<close>.
  Python strings are modelled as HOL strings; every string literal of the script is ASCII
  apart from the three pictographs of the progress messages, which are written as their
  UTF-8 bytes. The interpreter state the script reads and writes (its two module globals,
  the state of the random generator, the files, the standard output) is one record that
  every function takes and returns; an exception is the left summand of the result.
\<close>

subsection \<open>Exceptions\<close>

text \<open>
  \<open>IndexError\<close>: an index out of range, or \<^verbatim>\<open>random.choice\<close> on an empty sequence.
  \<open>FormatError\<close>: \<^verbatim>\<open>str.format\<close> raised (\<^verbatim>\<open>KeyError\<close> for an unknown field name,
  \<^verbatim>\<open>IndexError\<close> for a positional field, \<^verbatim>\<open>ValueError\<close> for an unmatched brace), or
  the template uses a replacement field outside the fragment modelled here (the plain
  field \<^verbatim>\<open>{intent}\<close> and the doubled braces).
  \<open>OSError\<close>: opening, writing or closing the output file failed, or writing to the
  standard output failed.
  \<open>UnicodeEncodeError\<close>: the encoding of the standard output cannot encode a character
  that \<^verbatim>\<open>print\<close> is given.
\<close>

datatype error = IndexError | FormatError | OSError | UnicodeEncodeError

subsection \<open>The module globals\<close>

text \<open>Lines 6 to 11: a dict keeps its insertion order, so it is an association list.\<close>

definition AGENTS :: "(string \<times> string list) list" where
  "AGENTS =
    [(''agent_hr'', [''payroll issue'', ''holiday request'', ''benefits question'', ''onboarding'']),
     (''agent_it'', [''vpn access'', ''password reset'', ''laptop repair'', ''software license'']),
     (''agent_sales'', [''customer lead'', ''sales report'', ''crm update'', ''contract renewal'']),
     (''agent_data'', [''sql query'', ''dashboard access'', ''data warehouse'', ''snowflake''])]"

text \<open>Lines 13 to 19.\<close>

definition TEMPLATES :: "string list" where
  "TEMPLATES =
    [''I need help with {intent}'',
     ''Can you check my {intent}?'',
     ''Who handles {intent}?'',
     ''It seems my {intent} is broken'',
     ''Quick question about {intent}'']"

subsection \<open>The interpreter state\<close>

text \<open>
  \<open>AGENTS_var\<close> and \<open>TEMPLATES_var\<close> are the values currently bound to the module globals
  \<^verbatim>\<open>AGENTS\<close> and \<^verbatim>\<open>TEMPLATES\<close>; \<open>rng\<close> is the state of the generator behind the module
  \<^verbatim>\<open>random\<close>; \<open>files\<close> maps a path to the contents of the file there; \<open>stdout\<close> holds the
  lines printed so far. \<open>io_budget\<close> is the environment's say on file operations: \<open>None\<close>
  when none will fail, \<open>Some k\<close> when the next \<open>k\<close> operations succeed and the one after them
  raises \<^verbatim>\<open>OSError\<close> (no permission, disk full, invalid path).
  \<open>stdout_unicode\<close> tells whether the encoding of the standard output is a Unicode encoding
  such as UTF-8, which encodes every character; when it is not (ASCII, a legacy code page)
  it encodes the ASCII characters, and none of the pictographs that the script prints.
  \<open>stdout_broken\<close> tells whether writing to the standard output fails (a terminal that is
  gone, a closed pipe).
\<close>

record 's pystate =
  AGENTS_var :: "(string \<times> string list) list"
  TEMPLATES_var :: "string list"
  rng :: 's
  files :: "string \<rightharpoonup> string"
  stdout :: "string list"
  io_budget :: "nat option"
  stdout_unicode :: bool
  stdout_broken :: bool

text \<open>The assignments of lines 6 to 19, run when the module is loaded.\<close>

definition module_init :: "'s pystate \<Rightarrow> 's pystate" where
  "module_init \<sigma> = \<sigma>\<lparr>AGENTS_var := AGENTS, TEMPLATES_var := TEMPLATES\<rparr>"

subsection \<open>The random source\<close>

text \<open>
  The generator of the standard library is not part of the repository: it is a parameter,
  given by its two primitives over a state of any type. \<open>rs_randbelow n\<close> is
  \<^verbatim>\<open>Random._randbelow(n)\<close>, an integer that the library promises to be below \<open>n\<close>;
  \<open>rs_random\<close> is \<^verbatim>\<open>random.random()\<close>, a float, read here as the real number it denotes.
\<close>

record 's random_source =
  rs_randbelow :: "nat \<Rightarrow> 's \<Rightarrow> nat \<times> 's"
  rs_random :: "'s \<Rightarrow> real \<times> 's"

text \<open>\<^verbatim>\<open>random.choice(seq)\<close>: \<^verbatim>\<open>seq[self._randbelow(len(seq))]\<close>, \<^verbatim>\<open>IndexError\<close> on an empty \<open>seq\<close>.\<close>

definition choice :: "'s random_source \<Rightarrow> 'a list \<Rightarrow> 's pystate \<Rightarrow> error + ('a \<times> 's pystate)" where
  "choice R seq \<sigma> =
    (if seq = [] then Inl IndexError
     else case rs_randbelow R (length seq) (rng \<sigma>) of
       (i, s') \<Rightarrow> if i < length seq then Inr (seq ! i, \<sigma>\<lparr>rng := s'\<rparr>) else Inl IndexError)"

text \<open>\<^verbatim>\<open>random.random()\<close>.\<close>

definition random_float :: "'s random_source \<Rightarrow> 's pystate \<Rightarrow> real \<times> 's pystate" where
  "random_float R \<sigma> = (case rs_random R (rng \<sigma>) of (u, s') \<Rightarrow> (u, \<sigma>\<lparr>rng := s'\<rparr>))"

text \<open>
  \<^verbatim>\<open>random.shuffle(x)\<close>, the loop of the library:
  \<^verbatim>\<open>for i in reversed(range(1, len(x))): j = randbelow(i + 1); x[i], x[j] = x[j], x[i]\<close>.
  \<open>shuffle_loop R i\<close> runs the iterations \<open>i, i - 1, ..., 1\<close>.
\<close>

fun shuffle_loop :: "'s random_source \<Rightarrow> nat \<Rightarrow> 'a list \<Rightarrow> 's \<Rightarrow> error + ('a list \<times> 's)" where
  "shuffle_loop R 0 x s = Inr (x, s)"
| "shuffle_loop R (Suc k) x s =
    (case rs_randbelow R (Suc k + 1) s of
       (j, s') \<Rightarrow>
         if Suc k < length x \<and> j < length x
         then shuffle_loop R k (x[Suc k := x ! j, j := x ! Suc k]) s'
         else Inl IndexError)"

definition shuffle :: "'s random_source \<Rightarrow> 'a list \<Rightarrow> 's pystate \<Rightarrow> error + ('a list \<times> 's pystate)" where
  "shuffle R x \<sigma> =
    (case shuffle_loop R (length x - 1) x (rng \<sigma>) of
       Inl e \<Rightarrow> Inl e
     | Inr (x', s') \<Rightarrow> Inr (x', \<sigma>\<lparr>rng := s'\<rparr>))"

subsection \<open>Strings: \<^verbatim>\<open>str.lower\<close>, \<^verbatim>\<open>str.format\<close>, \<^verbatim>\<open>str\<close> of a number\<close>

text \<open>\<^verbatim>\<open>str.lower\<close> on ASCII text: the 26 capital letters go to their small letters.\<close>

definition lower_char :: "char \<Rightarrow> char" where
  "lower_char c =
    (case map_of (zip ''ABCDEFGHIJKLMNOPQRSTUVWXYZ'' ''abcdefghijklmnopqrstuvwxyz'') c of
       None \<Rightarrow> c
     | Some l \<Rightarrow> l)"

definition lower :: "string \<Rightarrow> string" where
  "lower s = map lower_char s"

text \<open>
  \<^verbatim>\<open>template.format(intent=intent)\<close>. \<open>format_text\<close> scans literal text: a doubled brace
  is one brace, a single \<^verbatim>\<open>{\<close> opens a replacement field, a single \<^verbatim>\<open>}\<close> is an error.
  \<open>format_field\<close> reads the field name up to the closing brace; the only keyword argument
  is \<^verbatim>\<open>intent\<close>, whose value is copied to the result as it is.
\<close>

fun format_text :: "string \<Rightarrow> string \<Rightarrow> error + string"
  and format_field :: "string \<Rightarrow> string \<Rightarrow> string \<Rightarrow> error + string" where
  "format_text intent [] = Inr []"
| "format_text intent (c # cs) =
    (if c = CHR ''{'' then
       (case cs of
          [] \<Rightarrow> Inl FormatError
        | d # ds \<Rightarrow> if d = CHR ''{'' then map_sum id ((#) c) (format_text intent ds)
                    else format_field intent [] cs)
     else if c = CHR ''}'' then
       (case cs of
          [] \<Rightarrow> Inl FormatError
        | d # ds \<Rightarrow> if d = CHR ''}'' then map_sum id ((#) c) (format_text intent ds)
                    else Inl FormatError)
     else map_sum id ((#) c) (format_text intent cs))"
| "format_field intent name [] = Inl FormatError"
| "format_field intent name (c # cs) =
    (if c = CHR ''}'' then
       (if name = ''intent'' then map_sum id ((@) intent) (format_text intent cs)
        else Inl FormatError)
     else format_field intent (name @ [c]) cs)"

definition format :: "string \<Rightarrow> string \<Rightarrow> error + string" where
  "format template intent = format_text intent template"

text \<open>\<^verbatim>\<open>str(n)\<close> of a natural number: its decimal digits.\<close>

fun str_nat :: "nat \<Rightarrow> string" where
  "str_nat n = (if n < 10 then [''0123456789'' ! n] else str_nat (n div 10) @ [''0123456789'' ! (n mod 10)])"

declare str_nat.simps [simp del]

subsection \<open>\<^verbatim>\<open>json.dumps\<close>\<close>

text \<open>
  The script serialises dicts whose keys are strings and whose values are strings or the
  float \<^verbatim>\<open>1.0\<close>. \<open>JFloat k\<close> is the float of integral value \<open>k\<close>; \<^verbatim>\<open>float.__repr__\<close> prints
  such a float (of magnitude below \<open>10^16\<close>) as the digits of \<open>k\<close> followed by \<^verbatim>\<open>.0\<close>.
\<close>

datatype json_value = JStr string | JFloat nat

definition float_repr :: "nat \<Rightarrow> string" where
  "float_repr k = str_nat k @ ''.0''"

text \<open>
  \<^verbatim>\<open>py_encode_basestring_ascii\<close> (\<^verbatim>\<open>ensure_ascii\<close> is on by default): a backslash, a double
  quote and every character outside the range from space to tilde are escaped, the seven
  characters of \<^verbatim>\<open>ESCAPE_DCT\<close> by their short form and the others as \<^verbatim>\<open>\u00XX\<close>.
\<close>

definition escape_char :: "char \<Rightarrow> string" where
  "escape_char c =
    (let n = (of_char c :: nat) in
     if c = CHR 0x5C then [CHR 0x5C, CHR 0x5C]
     else if c = CHR 0x22 then [CHR 0x5C, CHR 0x22]
     else if c = CHR 0x08 then [CHR 0x5C, CHR ''b'']
     else if c = CHR 0x0C then [CHR 0x5C, CHR ''f'']
     else if c = CHR 0x0A then [CHR 0x5C, CHR ''n'']
     else if c = CHR 0x0D then [CHR 0x5C, CHR ''r'']
     else if c = CHR 0x09 then [CHR 0x5C, CHR ''t'']
     else if 32 \<le> n \<and> n \<le> 126 then [c]
     else [CHR 0x5C, CHR ''u'', CHR ''0'', CHR ''0'',
           ''0123456789abcdef'' ! (n div 16), ''0123456789abcdef'' ! (n mod 16)])"

definition encode_basestring_ascii :: "string \<Rightarrow> string" where
  "encode_basestring_ascii s = [CHR 0x22] @ concat (map escape_char s) @ [CHR 0x22]"

fun json_dumps_value :: "json_value \<Rightarrow> string" where
  "json_dumps_value (JStr s) = encode_basestring_ascii s"
| "json_dumps_value (JFloat k) = float_repr k"

text \<open>The items of a dict, joined by the default item separator \<^verbatim>\<open>", "\<close>.\<close>

fun json_items :: "(string \<times> json_value) list \<Rightarrow> string" where
  "json_items [] = []"
| "json_items [(k, v)] = encode_basestring_ascii k @ '': '' @ json_dumps_value v"
| "json_items ((k, v) # kvs) =
     encode_basestring_ascii k @ '': '' @ json_dumps_value v @ '', '' @ json_items kvs"

definition json_dumps :: "(string \<times> json_value) list \<Rightarrow> string" where
  "json_dumps d = ''{'' @ json_items d @ ''}''"

subsection \<open>\<^verbatim>\<open>generate_sample\<close>\<close>

text \<open>The dict that \<^verbatim>\<open>generate_sample\<close> returns: three string values under the keys
  \<^verbatim>\<open>instruction\<close>, \<^verbatim>\<open>input\<close> and \<^verbatim>\<open>output\<close>.\<close>

record training_record =
  rec_instruction :: string
  rec_input :: string
  rec_output :: string

text \<open>The literal \<^verbatim>\<open>0.1\<close> of line 30 is the double \<open>3602879701896397 / 2^55\<close>.\<close>

definition float_0_1 :: real where
  "float_0_1 = 3602879701896397 / 36028797018963968"

text \<open>The dict serialised on lines 36 to 40.\<close>

definition routing_decision :: "string \<Rightarrow> string \<Rightarrow> (string \<times> json_value) list" where
  "routing_decision agent intent =
    [(''target'', JStr agent),
     (''confidence'', JFloat 1),
     (''reason'', JStr (''Matched intent: '' @ intent))]"

definition generate_sample ::
  "'s random_source \<Rightarrow> string \<Rightarrow> string \<Rightarrow> 's pystate \<Rightarrow> error + (training_record \<times> 's pystate)" where
  "generate_sample R agent intent \<sigma> =
    (case choice R (TEMPLATES_var \<sigma>) \<sigma> of
       Inl e \<Rightarrow> Inl e
     | Inr (template, \<sigma>1) \<Rightarrow>
        (case format template intent of
           Inl e \<Rightarrow> Inl e
         | Inr utterance \<Rightarrow>
            (case random_float R \<sigma>1 of
               (u, \<sigma>2) \<Rightarrow>
                 Inr (\<lparr>rec_instruction = ''Route the user query to the correct internal agent. Output JSON.'',
                       rec_input = (if u < float_0_1 then lower utterance else utterance),
                       rec_output = json_dumps (routing_decision agent intent)\<rparr>,
                      \<sigma>2))))"

subsection \<open>\<^verbatim>\<open>main\<close>\<close>

definition SAMPLES_PER_INTENT :: nat where
  "SAMPLES_PER_INTENT = 50"

text \<open>Line 52 and 53: \<^verbatim>\<open>for _ in range(n): dataset.append(generate_sample(agent, intent))\<close>.\<close>

fun samples_loop ::
  "'s random_source \<Rightarrow> string \<Rightarrow> string \<Rightarrow> nat \<Rightarrow> training_record list \<Rightarrow> 's pystate
   \<Rightarrow> error + (training_record list \<times> 's pystate)" where
  "samples_loop R agent intent 0 dataset \<sigma> = Inr (dataset, \<sigma>)"
| "samples_loop R agent intent (Suc n) dataset \<sigma> =
    (case generate_sample R agent intent \<sigma> of
       Inl e \<Rightarrow> Inl e
     | Inr (r, \<sigma>') \<Rightarrow> samples_loop R agent intent n (dataset @ [r]) \<sigma>')"

text \<open>Line 51: \<^verbatim>\<open>for intent in intents\<close>.\<close>

fun intents_loop ::
  "'s random_source \<Rightarrow> string \<Rightarrow> string list \<Rightarrow> training_record list \<Rightarrow> 's pystate
   \<Rightarrow> error + (training_record list \<times> 's pystate)" where
  "intents_loop R agent [] dataset \<sigma> = Inr (dataset, \<sigma>)"
| "intents_loop R agent (intent # intents) dataset \<sigma> =
    (case samples_loop R agent intent SAMPLES_PER_INTENT dataset \<sigma> of
       Inl e \<Rightarrow> Inl e
     | Inr (dataset', \<sigma>') \<Rightarrow> intents_loop R agent intents dataset' \<sigma>')"

text \<open>Line 50: \<^verbatim>\<open>for agent, intents in AGENTS.items()\<close>.\<close>

fun agents_loop ::
  "'s random_source \<Rightarrow> (string \<times> string list) list \<Rightarrow> training_record list \<Rightarrow> 's pystate
   \<Rightarrow> error + (training_record list \<times> 's pystate)" where
  "agents_loop R [] dataset \<sigma> = Inr (dataset, \<sigma>)"
| "agents_loop R ((agent, intents) # items) dataset \<sigma> =
    (case intents_loop R agent intents dataset \<sigma> of
       Inl e \<Rightarrow> Inl e
     | Inr (dataset', \<sigma>') \<Rightarrow> agents_loop R items dataset' \<sigma>')"

text \<open>Lines 45 to 53: the dataset accumulated in catalog order, before the shuffle.\<close>

definition accumulate ::
  "'s random_source \<Rightarrow> 's pystate \<Rightarrow> error + (training_record list \<times> 's pystate)" where
  "accumulate R \<sigma> = agents_loop R (AGENTS_var \<sigma>) [] \<sigma>"

text \<open>Lines 45 to 56: the accumulation and the shuffle.\<close>

definition build_dataset ::
  "'s random_source \<Rightarrow> 's pystate \<Rightarrow> error + (training_record list \<times> 's pystate)" where
  "build_dataset R \<sigma> =
    (case accumulate R \<sigma> of
       Inl e \<Rightarrow> Inl e
     | Inr (dataset, \<sigma>') \<Rightarrow> shuffle R dataset \<sigma>')"

text \<open>One file operation, as the environment allows it.\<close>

definition io_op :: "'s pystate \<Rightarrow> error + 's pystate" where
  "io_op \<sigma> =
    (case io_budget \<sigma> of
       None \<Rightarrow> Inr \<sigma>
     | Some 0 \<Rightarrow> Inl OSError
     | Some (Suc k) \<Rightarrow> Inr (\<sigma>\<lparr>io_budget := Some k\<rparr>))"

text \<open>\<^verbatim>\<open>open(path, "w")\<close>: the file is created or truncated.\<close>

definition open_w :: "string \<Rightarrow> 's pystate \<Rightarrow> error + 's pystate" where
  "open_w path \<sigma> =
    (case io_op \<sigma> of
       Inl e \<Rightarrow> Inl e
     | Inr \<sigma>' \<Rightarrow> Inr (\<sigma>'\<lparr>files := (files \<sigma>')(path \<mapsto> [])\<rparr>))"

text \<open>\<^verbatim>\<open>f.write(data)\<close> on the file opened at \<open>path\<close>: the data is appended.\<close>

definition file_write :: "string \<Rightarrow> string \<Rightarrow> 's pystate \<Rightarrow> error + 's pystate" where
  "file_write path data \<sigma> =
    (case io_op \<sigma> of
       Inl e \<Rightarrow> Inl e
     | Inr \<sigma>' \<Rightarrow>
         Inr (\<sigma>'\<lparr>files := (files \<sigma>')(path \<mapsto> (case files \<sigma>' path of None \<Rightarrow> [] | Some old \<Rightarrow> old) @ data)\<rparr>))"

text \<open>Leaving the \<^verbatim>\<open>with\<close> block closes the file.\<close>

definition file_close :: "string \<Rightarrow> 's pystate \<Rightarrow> error + 's pystate" where
  "file_close path \<sigma> = io_op \<sigma>"

text \<open>\<^verbatim>\<open>json.dumps(entry)\<close> of a record: its three keys in insertion order.\<close>

definition json_dumps_entry :: "training_record \<Rightarrow> string" where
  "json_dumps_entry entry =
    json_dumps [(''instruction'', JStr (rec_instruction entry)),
                (''input'', JStr (rec_input entry)),
                (''output'', JStr (rec_output entry))]"

text \<open>Lines 60 and 61: \<^verbatim>\<open>for entry in dataset: f.write(json.dumps(entry) + "\n")\<close>.\<close>

fun write_loop :: "string \<Rightarrow> training_record list \<Rightarrow> 's pystate \<Rightarrow> error + 's pystate" where
  "write_loop path [] \<sigma> = Inr \<sigma>"
| "write_loop path (entry # dataset) \<sigma> =
    (case file_write path (json_dumps_entry entry @ [CHR 0x0A]) \<sigma> of
       Inl e \<Rightarrow> Inl e
     | Inr \<sigma>' \<Rightarrow> write_loop path dataset \<sigma>')"

text \<open>Lines 59 to 61: the \<^verbatim>\<open>with\<close> block.\<close>

definition persist :: "string \<Rightarrow> training_record list \<Rightarrow> 's pystate \<Rightarrow> error + 's pystate" where
  "persist path dataset \<sigma> =
    (case open_w path \<sigma> of
       Inl e \<Rightarrow> Inl e
     | Inr \<sigma>1 \<Rightarrow>
        (case write_loop path dataset \<sigma>1 of
           Inl e \<Rightarrow> Inl e
         | Inr \<sigma>2 \<Rightarrow> file_close path \<sigma>2))"

text \<open>
  \<^verbatim>\<open>print(line)\<close>: the line is encoded for the standard output, which raises
  \<^verbatim>\<open>UnicodeEncodeError\<close> when the encoding has no code for one of its characters (here: a
  byte of a character beyond ASCII, on an output that is not Unicode), and then written,
  which raises \<^verbatim>\<open>OSError\<close> when the output is broken.
\<close>

definition print :: "string \<Rightarrow> 's pystate \<Rightarrow> error + 's pystate" where
  "print line \<sigma> =
    (if \<not> stdout_unicode \<sigma> \<and> (\<exists>c \<in> set line. 128 \<le> (of_char c :: nat)) then Inl UnicodeEncodeError
     else if stdout_broken \<sigma> then Inl OSError
     else Inr (\<sigma>\<lparr>stdout := stdout \<sigma> @ [line]\<rparr>))"

definition filename :: string where
  "filename = ''edgeneuro_training_data.jsonl''"

definition msg_start :: string where
  "msg_start = [CHR 0xF0, CHR 0x9F, CHR 0xA7, CHR 0xA0]
     @ '' Generating Synthetic Training Data for EdgeNeuro...''"

definition msg_generated :: "nat \<Rightarrow> string" where
  "msg_generated n = [CHR 0xE2, CHR 0x9C, CHR 0x85]
     @ '' Generated '' @ str_nat n @ '' examples in '' @ filename"

definition msg_next :: string where
  "msg_next = [CHR 0xF0, CHR 0x9F, CHR 0x91, CHR 0x89]
     @ '' Next step: Use this file to fine-tune Llama-3-8B''"

definition main :: "'s random_source \<Rightarrow> 's pystate \<Rightarrow> error + 's pystate" where
  "main R \<sigma> =
    (case print msg_start \<sigma> of
       Inl e \<Rightarrow> Inl e
     | Inr \<sigma>0 \<Rightarrow>
        (case build_dataset R \<sigma>0 of
           Inl e \<Rightarrow> Inl e
         | Inr (dataset, \<sigma>1) \<Rightarrow>
            (case persist filename dataset \<sigma>1 of
               Inl e \<Rightarrow> Inl e
             | Inr \<sigma>2 \<Rightarrow>
                (case print (msg_generated (length dataset)) \<sigma>2 of
                   Inl e \<Rightarrow> Inl e
                 | Inr \<sigma>3 \<Rightarrow> print msg_next \<sigma>3))))"

section \<open>Notions used in the statements\<close>

text \<open>
  What the library promises of \<^verbatim>\<open>_randbelow(n)\<close>: a result below \<open>n\<close>, for positive \<open>n\<close>.
\<close>

definition rng_ok :: "'s random_source \<Rightarrow> bool" where
  "rng_ok R = (\<forall>n s. 0 < n \<longrightarrow> fst (rs_randbelow R n s) < n)"

text \<open>The state once the module is loaded: the globals hold the two literals.\<close>

definition loaded :: "'s pystate \<Rightarrow> bool" where
  "loaded \<sigma> = (AGENTS_var \<sigma> = AGENTS \<and> TEMPLATES_var \<sigma> = TEMPLATES)"

text \<open>From \<open>\<sigma>\<close> to \<open>\<sigma>'\<close> nothing but the state of the random generator changed.\<close>

definition rng_only :: "'s pystate \<Rightarrow> 's pystate \<Rightarrow> bool" where
  "rng_only \<sigma> \<sigma>' = (\<exists>s. \<sigma>' = \<sigma>\<lparr>rng := s\<rparr>)"

text \<open>The standard output takes every line that the script prints.\<close>

definition stdout_ok :: "'s pystate \<Rightarrow> bool" where
  "stdout_ok \<sigma> = (stdout_unicode \<sigma> \<and> \<not> stdout_broken \<sigma>)"

text \<open>The environment lets the next \<open>n\<close> file operations succeed.\<close>

definition io_allows :: "nat \<Rightarrow> 's pystate \<Rightarrow> bool" where
  "io_allows n \<sigma> = (case io_budget \<sigma> of None \<Rightarrow> True | Some k \<Rightarrow> n \<le> k)"

text \<open>The state after \<open>n\<close> file operations that the environment allowed.\<close>

definition spend :: "nat \<Rightarrow> 's pystate \<Rightarrow> 's pystate" where
  "spend n \<sigma> = \<sigma>\<lparr>io_budget := map_option (\<lambda>k. k - n) (io_budget \<sigma>)\<rparr>"

text \<open>From \<open>\<sigma>\<close> to \<open>\<sigma>'\<close> the two module globals kept their values.\<close>

definition globals_kept :: "'s pystate \<Rightarrow> 's pystate \<Rightarrow> bool" where
  "globals_kept \<sigma> \<sigma>' = (AGENTS_var \<sigma>' = AGENTS_var \<sigma> \<and> TEMPLATES_var \<sigma>' = TEMPLATES_var \<sigma>)"

text \<open>The line written for a record, and the contents of the file written for a dataset.\<close>

definition jsonl_line :: "training_record \<Rightarrow> string" where
  "jsonl_line entry = json_dumps_entry entry @ [CHR 0x0A]"

definition jsonl :: "training_record list \<Rightarrow> string" where
  "jsonl dataset = concat (map jsonl_line dataset)"

text \<open>
  \<open>template\<close> has a single replacement field, the placeholder \<^verbatim>\<open>{intent}\<close>, and
  \<open>utterance\<close> is \<open>template\<close> with the placeholder replaced by \<open>intent\<close>.
\<close>

definition fills :: "string \<Rightarrow> string \<Rightarrow> string \<Rightarrow> bool" where
  "fills template intent utterance =
     (\<exists>pre post. template = pre @ ''{intent}'' @ post
        \<and> CHR ''{'' \<notin> set pre \<and> CHR ''{'' \<notin> set post
        \<and> utterance = pre @ intent @ post)"

text \<open>A text between double quotes, and a text between double quotes that are escaped.\<close>

definition quoted :: "string \<Rightarrow> string" where
  "quoted s = [CHR 0x22] @ s @ [CHR 0x22]"

definition bquoted :: "string \<Rightarrow> string" where
  "bquoted s = [CHR 0x5C, CHR 0x22] @ s @ [CHR 0x5C, CHR 0x22]"

text \<open>
  The line of the output file as the specification gives it, for an utterance, an agent
  and an intent:
  \<^verbatim>\<open>{"instruction": "<fixed string>", "input": "<generated utterance>", "output":
  "{\"target\": \"<agent_id>\", \"confidence\": 1.0, \"reason\": \"Matched intent: <intent>\"}"}\<close>.
\<close>

definition spec_line :: "string \<Rightarrow> string \<Rightarrow> string \<Rightarrow> string" where
  "spec_line utterance agent intent =
     ''{'' @ quoted ''instruction'' @ '': ''
       @ quoted ''Route the user query to the correct internal agent. Output JSON.'' @ '', ''
       @ quoted ''input'' @ '': '' @ quoted utterance @ '', ''
       @ quoted ''output'' @ '': ''
       @ quoted (''{'' @ bquoted ''target'' @ '': '' @ bquoted agent @ '', ''
                   @ bquoted ''confidence'' @ '': 1.0, ''
                   @ bquoted ''reason'' @ '': '' @ bquoted (''Matched intent: '' @ intent) @ ''}'')
       @ ''}''"


text \<open>A text that \<^verbatim>\<open>json.dumps\<close> writes as it is: no character of it is escaped.\<close>

definition plain :: "string \<Rightarrow> bool" where
  "plain s = (\<forall>c \<in> set s. escape_char c = [c])"

text \<open>The state after \<^verbatim>\<open>print(line)\<close> returned.\<close>

definition printed :: "string \<Rightarrow> 's pystate \<Rightarrow> 's pystate" where
  "printed line \<sigma> = \<sigma>\<lparr>stdout := stdout \<sigma> @ [line]\<rparr>"

text \<open>
  The two draws of one call of \<open>generate_sample\<close> in the state \<open>\<sigma>\<close>: the index drawn by
  \<^verbatim>\<open>random.choice\<close>, the float drawn by \<^verbatim>\<open>random.random\<close> after it, and the state
  that the call leaves.
\<close>

definition template_draw :: "'s random_source \<Rightarrow> 's pystate \<Rightarrow> nat" where
  "template_draw R \<sigma> = fst (rs_randbelow R (length (TEMPLATES_var \<sigma>)) (rng \<sigma>))"

definition lowercase_draw :: "'s random_source \<Rightarrow> 's pystate \<Rightarrow> real" where
  "lowercase_draw R \<sigma> =
     fst (rs_random R (snd (rs_randbelow R (length (TEMPLATES_var \<sigma>)) (rng \<sigma>))))"

definition after_sample :: "'s random_source \<Rightarrow> 's pystate \<Rightarrow> 's pystate" where
  "after_sample R \<sigma> =
     \<sigma>\<lparr>rng := snd (rs_random R (snd (rs_randbelow R (length (TEMPLATES_var \<sigma>)) (rng \<sigma>))))\<rparr>"

text \<open>
  \<open>r\<close> is a record that \<open>generate_sample\<close> returns for the pair, called in some state
  whose templates are those of the script.
\<close>

definition sample_of :: "'s random_source \<Rightarrow> string \<Rightarrow> string \<Rightarrow> training_record \<Rightarrow> bool" where
  "sample_of R agent intent r =
     (\<exists>\<sigma> \<sigma>'. TEMPLATES_var \<sigma> = TEMPLATES \<and> generate_sample R agent intent \<sigma> = Inr (r, \<sigma>'))"

text \<open>
  The \<^verbatim>\<open>output\<close> of the record \<open>r\<close> is the serialization of the routing decision whose
  target is \<open>agent\<close> and whose reason is \<^verbatim>\<open>Matched intent: \<close> followed by \<open>intent\<close>.
\<close>

definition routes_to :: "training_record \<Rightarrow> string \<Rightarrow> string \<Rightarrow> bool" where
  "routes_to r agent intent = (rec_output r = json_dumps (routing_decision agent intent))"

text \<open>The (agent, intent) pairs of a catalog, in catalog order.\<close>

definition catalog_pairs :: "(string \<times> string list) list \<Rightarrow> (string \<times> string) list" where
  "catalog_pairs items = concat (map (\<lambda>(agent, intents). map (Pair agent) intents) items)"

text \<open>The pair each record of the accumulated sequence is made for, position by position.\<close>

definition expected_pairs :: "(string \<times> string list) list \<Rightarrow> (string \<times> string) list" where
  "expected_pairs items = concat (map (replicate SAMPLES_PER_INTENT) (catalog_pairs items))"

definition made_for :: "'s random_source \<Rightarrow> training_record list \<Rightarrow> (string \<times> string) list \<Rightarrow> bool" where
  "made_for R rs ps = list_all2 (\<lambda>r p. sample_of R (fst p) (snd p) r) rs ps"

text \<open>The character that a two-character escape of \<open>escape_char\<close> stands for.\<close>

definition unshort :: "char \<Rightarrow> char" where
  "unshort e =
    (if e = CHR ''b'' then CHR 0x08 else if e = CHR ''f'' then CHR 0x0C
     else if e = CHR ''n'' then CHR 0x0A else if e = CHR ''r'' then CHR 0x0D
     else if e = CHR ''t'' then CHR 0x09 else e)"

text \<open>
  Two random sources, over state types of their own, make the same draws from states
  related by \<open>rel\<close>, and their next states are related again.
\<close>

definition same_draws :: "('s \<Rightarrow> 't \<Rightarrow> bool) \<Rightarrow> 's random_source \<Rightarrow> 't random_source \<Rightarrow> bool" where
  "same_draws rel R1 R2 =
     (\<forall>s t. rel s t \<longrightarrow>
        (\<forall>n. fst (rs_randbelow R1 n s) = fst (rs_randbelow R2 n t)
              \<and> rel (snd (rs_randbelow R1 n s)) (snd (rs_randbelow R2 n t)))
        \<and> fst (rs_random R1 s) = fst (rs_random R2 t)
        \<and> rel (snd (rs_random R1 s)) (snd (rs_random R2 t)))"

text \<open>
  Two states, over random sources of their own, look the same to the generation pass: their
  generator states are related and their module globals are equal. Two results of the pass
  (or of a part of it) are the same: the same exception, or the same value with states
  that look the same again.
\<close>

definition same_view :: "('s \<Rightarrow> 't \<Rightarrow> bool) \<Rightarrow> 's pystate \<Rightarrow> 't pystate \<Rightarrow> bool" where
  "same_view rel \<sigma> \<tau> =
     (rel (rng \<sigma>) (rng \<tau>) \<and> AGENTS_var \<sigma> = AGENTS_var \<tau> \<and> TEMPLATES_var \<sigma> = TEMPLATES_var \<tau>)"

definition same_result ::
  "('s \<Rightarrow> 't \<Rightarrow> bool) \<Rightarrow> error + ('a \<times> 's pystate) \<Rightarrow> error + ('a \<times> 't pystate) \<Rightarrow> bool" where
  "same_result rel = rel_sum (=) (rel_prod (=) (same_view rel))"

text \<open>
  A random source to run the script on: its state is a counter \<open>s\<close>, the integer drawn
  below \<open>n\<close> is \<open>s mod n\<close>, the float drawn is \<open>s mod 8\<close> in eighths (which are floats).
\<close>

definition counter_source :: "nat random_source" where
  "counter_source =
     \<lparr>rs_randbelow = (\<lambda>n s. (s mod n, Suc s)),
      rs_random = (\<lambda>s. (real (s mod 8) / 8, Suc s))\<rparr>"

text \<open>
  The state in which the loaded module starts, the generator at the counter \<open>s\<close>: no file
  yet, nothing printed, an environment in which no file operation fails and a standard
  output in UTF-8.
\<close>

definition start_state :: "nat \<Rightarrow> nat pystate" where
  "start_state s =
     module_init \<lparr>AGENTS_var = [], TEMPLATES_var = [], rng = s, files = Map.empty,
                  stdout = [], io_budget = None, stdout_unicode = True, stdout_broken = False\<rparr>"

section \<open>Lemmas\<close>


subsection \<open>The templates, and what \<open>generate_sample\<close> returns\<close>

lemma length_TEMPLATES: "length TEMPLATES = 5"
  by (simp add: TEMPLATES_def)

lemma format_TEMPLATES_0: "format (TEMPLATES ! 0) intent = Inr (''I need help with '' @ intent)"
  by (simp add: TEMPLATES_def format_def)

lemma format_TEMPLATES_1: "format (TEMPLATES ! 1) intent = Inr (''Can you check my '' @ intent @ ''?'')"
  by (simp add: TEMPLATES_def format_def)

lemma format_TEMPLATES_2: "format (TEMPLATES ! 2) intent = Inr (''Who handles '' @ intent @ ''?'')"
  by (simp add: TEMPLATES_def format_def)

lemma format_TEMPLATES_3: "format (TEMPLATES ! 3) intent = Inr (''It seems my '' @ intent @ '' is broken'')"
  by (simp add: TEMPLATES_def format_def)

lemma format_TEMPLATES_4: "format (TEMPLATES ! 4) intent = Inr (''Quick question about '' @ intent)"
  by (simp add: TEMPLATES_def format_def)

lemma less_5_cases: "k < (5::nat) \<Longrightarrow> k = 0 \<or> k = 1 \<or> k = 2 \<or> k = 3 \<or> k = 4"
  by arith

lemma fillsI:
  "template = pre @ ''{intent}'' @ post \<Longrightarrow> CHR ''{'' \<notin> set pre \<Longrightarrow> CHR ''{'' \<notin> set post
   \<Longrightarrow> utterance = pre @ intent @ post \<Longrightarrow> fills template intent utterance"
  unfolding fills_def by blast

lemma format_TEMPLATES:
  assumes "k < 5"
  shows "\<exists>u. format (TEMPLATES ! k) intent = Inr u \<and> fills (TEMPLATES ! k) intent u \<and> u \<noteq> []"
proof -
  from assms consider "k = 0" | "k = 1" | "k = 2" | "k = 3" | "k = 4"
    using less_5_cases by blast
  then show ?thesis
  proof cases
    case 1
    have "fills (TEMPLATES ! 0) intent (''I need help with '' @ intent)"
      by (rule fillsI [where pre = "''I need help with ''" and post = "[]"]) (simp_all add: TEMPLATES_def)
    with 1 show ?thesis using format_TEMPLATES_0 by simp
  next
    case 2
    have "fills (TEMPLATES ! 1) intent (''Can you check my '' @ intent @ ''?'')"
      by (rule fillsI [where pre = "''Can you check my ''" and post = "''?''"]) (simp_all add: TEMPLATES_def)
    with 2 show ?thesis using format_TEMPLATES_1 by simp
  next
    case 3
    have "fills (TEMPLATES ! 2) intent (''Who handles '' @ intent @ ''?'')"
      by (rule fillsI [where pre = "''Who handles ''" and post = "''?''"]) (simp_all add: TEMPLATES_def)
    with 3 show ?thesis using format_TEMPLATES_2 by simp
  next
    case 4
    have "fills (TEMPLATES ! 3) intent (''It seems my '' @ intent @ '' is broken'')"
      by (rule fillsI [where pre = "''It seems my ''" and post = "'' is broken''"]) (simp_all add: TEMPLATES_def)
    with 4 show ?thesis using format_TEMPLATES_3 by simp
  next
    case 5
    have "fills (TEMPLATES ! 4) intent (''Quick question about '' @ intent)"
      by (rule fillsI [where pre = "''Quick question about ''" and post = "[]"]) (simp_all add: TEMPLATES_def)
    with 5 show ?thesis using format_TEMPLATES_4 by simp
  qed
qed

lemma choice_ok:
  assumes "rng_ok R" "seq \<noteq> []"
  shows "choice R seq \<sigma> =
     Inr (seq ! fst (rs_randbelow R (length seq) (rng \<sigma>)),
          \<sigma>\<lparr>rng := snd (rs_randbelow R (length seq) (rng \<sigma>))\<rparr>)"
    and "fst (rs_randbelow R (length seq) (rng \<sigma>)) < length seq"
proof -
  show *: "fst (rs_randbelow R (length seq) (rng \<sigma>)) < length seq"
    using assms unfolding rng_ok_def by simp
  then show "choice R seq \<sigma> =
     Inr (seq ! fst (rs_randbelow R (length seq) (rng \<sigma>)),
          \<sigma>\<lparr>rng := snd (rs_randbelow R (length seq) (rng \<sigma>))\<rparr>)"
    using assms(2) by (simp add: choice_def case_prod_beta)
qed

lemma generate_sample_ok:
  assumes "rng_ok R" "TEMPLATES_var \<sigma> = TEMPLATES"
  shows "\<exists>u. fills (TEMPLATES ! template_draw R \<sigma>) intent u \<and> u \<noteq> [] \<and>
     template_draw R \<sigma> < 5 \<and>
     generate_sample R agent intent \<sigma> =
       Inr (\<lparr>rec_instruction = ''Route the user query to the correct internal agent. Output JSON.'',
             rec_input = (if lowercase_draw R \<sigma> < float_0_1 then lower u else u),
             rec_output = json_dumps (routing_decision agent intent)\<rparr>,
            after_sample R \<sigma>)"
proof -
  have ne: "TEMPLATES_var \<sigma> \<noteq> []"
    using assms(2) by (simp add: TEMPLATES_def)
  have k: "template_draw R \<sigma> < 5"
    using choice_ok(2) [OF assms(1) ne, of \<sigma>] assms(2)
    by (simp add: template_draw_def length_TEMPLATES)
  from format_TEMPLATES [OF k, of intent] obtain u where
    u: "format (TEMPLATES ! template_draw R \<sigma>) intent = Inr u"
       "fills (TEMPLATES ! template_draw R \<sigma>) intent u" "u \<noteq> []"
    by blast
  have "generate_sample R agent intent \<sigma> =
       Inr (\<lparr>rec_instruction = ''Route the user query to the correct internal agent. Output JSON.'',
             rec_input = (if lowercase_draw R \<sigma> < float_0_1 then lower u else u),
             rec_output = json_dumps (routing_decision agent intent)\<rparr>,
            after_sample R \<sigma>)"
    unfolding generate_sample_def choice_ok(1) [OF assms(1) ne]
    using u(1) assms(2)
    by (simp add: template_draw_def lowercase_draw_def after_sample_def random_float_def
        case_prod_beta)
  with u k show ?thesis by blast
qed

subsection \<open>The serialization can be read back in one way only\<close>

lemma of_char_less_256: "(of_char c :: nat) < 256"
proof -
  have "(of_char c :: nat) mod 256 = of_char c" by simp
  then show ?thesis by (metis mod_less_divisor zero_less_numeral)
qed

lemma hex_inj:
  assumes "n < 256" "m < 256"
    and "''0123456789abcdef'' ! (n div 16) = ''0123456789abcdef'' ! (m div 16)"
    and "''0123456789abcdef'' ! (n mod 16) = ''0123456789abcdef'' ! (m mod 16)"
  shows "n = (m::nat)"
proof -
  have d: "distinct ''0123456789abcdef''" by simp
  have l: "length ''0123456789abcdef'' = 16" by simp
  have "n div 16 < 16" "m div 16 < 16" "n mod 16 < 16" "m mod 16 < 16"
    using assms(1,2) by simp_all
  then have "n div 16 = m div 16" "n mod 16 = m mod 16"
    using assms(3,4) nth_eq_iff_index_eq [OF d] l by metis+
  then show ?thesis
    by (metis div_mult_mod_eq)
qed

lemma hex_not_special:
  "''0123456789abcdef'' ! ((of_char c :: nat) div 16) \<notin> {CHR 0x0A, CHR 0x22}"
  "''0123456789abcdef'' ! ((of_char c :: nat) mod 16) \<notin> {CHR 0x0A, CHR 0x22}"
proof -
  have len: "length ''0123456789abcdef'' = 16"
    by simp
  have "(of_char c :: nat) div 16 < 16"
    using of_char_less_256 [of c] by arith
  then have "(of_char c :: nat) div 16 < length ''0123456789abcdef''"
    by (simp only: len)
  then have "''0123456789abcdef'' ! ((of_char c :: nat) div 16) \<in> set ''0123456789abcdef''"
    by (rule nth_mem)
  then show "''0123456789abcdef'' ! ((of_char c :: nat) div 16) \<notin> {CHR 0x0A, CHR 0x22}"
    by auto
  have "(of_char c :: nat) mod 16 < 16"
    by arith
  then have "(of_char c :: nat) mod 16 < length ''0123456789abcdef''"
    by (simp only: len)
  then have "''0123456789abcdef'' ! ((of_char c :: nat) mod 16) \<in> set ''0123456789abcdef''"
    by (rule nth_mem)
  then show "''0123456789abcdef'' ! ((of_char c :: nat) mod 16) \<notin> {CHR 0x0A, CHR 0x22}"
    by auto
qed

lemma escape_char_cases:
  "(\<exists>e. escape_char c = [CHR 0x5C, e] \<and> e \<noteq> CHR ''u'' \<and> e \<noteq> CHR 0x0A \<and> c = unshort e)
   \<or> (escape_char c = [c] \<and> c \<noteq> CHR 0x5C \<and> c \<noteq> CHR 0x22 \<and> c \<noteq> CHR 0x0A)
   \<or> escape_char c = [CHR 0x5C, CHR ''u'', CHR ''0'', CHR ''0'',
           ''0123456789abcdef'' ! (of_char c div 16), ''0123456789abcdef'' ! (of_char c mod 16)]"
  by (simp add: escape_char_def Let_def unshort_def)

lemma escape_char_no_newline: "CHR 0x0A \<notin> set (escape_char c)"
  using escape_char_cases [of c] hex_not_special [of c]
  by (elim disjE exE conjE) auto

lemma escape_char_hd: "\<exists>h t. escape_char c = h # t \<and> h \<noteq> CHR 0x22"
  using escape_char_cases [of c]
  by (elim disjE exE conjE) simp_all

lemma escape_char_prefix_code:
  assumes "escape_char x @ A = escape_char y @ B"
  shows "x = y \<and> A = B"
proof -
  consider (s) e where "escape_char x = [CHR 0x5C, e]" "e \<noteq> CHR ''u''" "x = unshort e"
    | (p) "escape_char x = [x]" "x \<noteq> CHR 0x5C"
    | (u) "escape_char x = [CHR 0x5C, CHR ''u'', CHR ''0'', CHR ''0'',
           ''0123456789abcdef'' ! (of_char x div 16), ''0123456789abcdef'' ! (of_char x mod 16)]"
    using escape_char_cases [of x] by blast
  then have "x = y"
  proof cases
    case s
    from escape_char_cases [of y] show ?thesis
    proof (elim disjE exE conjE)
      fix e' assume "escape_char y = [CHR 0x5C, e']" "y = unshort e'"
      with s assms show ?thesis by simp
    next
      assume "escape_char y = [y]" "y \<noteq> CHR 0x5C"
      with s assms show ?thesis by simp
    next
      assume "escape_char y = [CHR 0x5C, CHR ''u'', CHR ''0'', CHR ''0'',
           ''0123456789abcdef'' ! (of_char y div 16), ''0123456789abcdef'' ! (of_char y mod 16)]"
      with s assms show ?thesis by simp
    qed
  next
    case p
    from escape_char_cases [of y] show ?thesis
    proof (elim disjE exE conjE)
      fix e' assume "escape_char y = [CHR 0x5C, e']"
      with p assms show ?thesis by simp
    next
      assume "escape_char y = [y]"
      with p assms show ?thesis by simp
    next
      assume "escape_char y = [CHR 0x5C, CHR ''u'', CHR ''0'', CHR ''0'',
           ''0123456789abcdef'' ! (of_char y div 16), ''0123456789abcdef'' ! (of_char y mod 16)]"
      with p assms show ?thesis by simp
    qed
  next
    case u
    from escape_char_cases [of y] show ?thesis
    proof (elim disjE exE conjE)
      fix e' assume "escape_char y = [CHR 0x5C, e']" "e' \<noteq> CHR ''u''"
      with u assms show ?thesis by simp
    next
      assume "escape_char y = [y]" "y \<noteq> CHR 0x5C"
      with u assms show ?thesis by simp
    next
      assume "escape_char y = [CHR 0x5C, CHR ''u'', CHR ''0'', CHR ''0'',
           ''0123456789abcdef'' ! (of_char y div 16), ''0123456789abcdef'' ! (of_char y mod 16)]"
      with u assms have
        "''0123456789abcdef'' ! ((of_char x :: nat) div 16) = ''0123456789abcdef'' ! ((of_char y :: nat) div 16)"
        "''0123456789abcdef'' ! ((of_char x :: nat) mod 16) = ''0123456789abcdef'' ! ((of_char y :: nat) mod 16)"
        by simp_all
      then have "(of_char x :: nat) = of_char y"
        by (rule hex_inj [OF of_char_less_256 of_char_less_256])
      then show ?thesis by simp
    qed
  qed
  with assms show ?thesis by simp
qed

text \<open>The escaped text of a string, between the quotes.\<close>

lemma escaped_unique:
  "concat (map escape_char xs) @ CHR 0x22 # r = concat (map escape_char ys) @ CHR 0x22 # r'
   \<Longrightarrow> xs = ys \<and> r = r'"
proof (induction xs arbitrary: ys)
  case Nil
  show ?case
  proof (cases ys)
    case Nil
    with Nil.prems show ?thesis by simp
  next
    case (Cons y ys')
    obtain h t where "escape_char y = h # t" "h \<noteq> CHR 0x22"
      using escape_char_hd by blast
    with Nil.prems Cons show ?thesis by simp
  qed
next
  case (Cons x xs)
  show ?case
  proof (cases ys)
    case Nil
    obtain h t where "escape_char x = h # t" "h \<noteq> CHR 0x22"
      using escape_char_hd by blast
    with Cons.prems Nil show ?thesis by simp
  next
    case (Cons y ys')
    with Cons.prems have
      "escape_char x @ (concat (map escape_char xs) @ CHR 0x22 # r) =
       escape_char y @ (concat (map escape_char ys') @ CHR 0x22 # r')"
      by simp
    from escape_char_prefix_code [OF this] Cons.IH [of ys'] Cons show ?thesis
      by simp
  qed
qed

lemma encode_basestring_ascii_unique:
  "encode_basestring_ascii xs @ r = encode_basestring_ascii ys @ r' \<Longrightarrow> xs = ys \<and> r = r'"
  using escaped_unique [of xs r ys r'] by (simp add: encode_basestring_ascii_def)

lemma encode_basestring_ascii_no_newline: "CHR 0x0A \<notin> set (encode_basestring_ascii s)"
  by (simp add: encode_basestring_ascii_def escape_char_no_newline)

lemma routing_decision_inj:
  assumes "json_dumps (routing_decision a i) = json_dumps (routing_decision a' i')"
  shows "a = a' \<and> i = i'"
proof -
  let ?mid = "'', '' @ encode_basestring_ascii ''confidence'' @ '': '' @ float_repr 1 @ '', ''
      @ encode_basestring_ascii ''reason'' @ '': ''"
  have unfold: "\<And>a i. json_dumps (routing_decision a i) =
      (''{'' @ encode_basestring_ascii ''target'' @ '': '') @ encode_basestring_ascii a @
      (?mid @ encode_basestring_ascii (''Matched intent: '' @ i) @ ''}'')"
    by (simp add: json_dumps_def routing_decision_def)
  from assms have
    "encode_basestring_ascii a @ (?mid @ encode_basestring_ascii (''Matched intent: '' @ i) @ ''}'') =
     encode_basestring_ascii a' @ (?mid @ encode_basestring_ascii (''Matched intent: '' @ i') @ ''}'')"
    unfolding unfold by (simp only: same_append_eq)
  from encode_basestring_ascii_unique [OF this] have a: "a = a'"
    and "encode_basestring_ascii (''Matched intent: '' @ i) @ ''}'' =
         encode_basestring_ascii (''Matched intent: '' @ i') @ ''}''"
    by (simp_all only: same_append_eq)
  from encode_basestring_ascii_unique [OF this(2)] have "''Matched intent: '' @ i = ''Matched intent: '' @ i'"
    by simp
  with a show ?thesis by simp
qed

lemma json_dumps_entry_no_newline: "CHR 0x0A \<notin> set (json_dumps_entry r)"
  by (simp add: json_dumps_entry_def json_dumps_def encode_basestring_ascii_no_newline)

subsection \<open>The generation changes the state of the generator only\<close>

lemma rng_only_refl: "rng_only \<sigma> \<sigma>"
  unfolding rng_only_def by (rule exI [of _ "rng \<sigma>"]) simp

lemma rng_only_trans: "rng_only \<sigma> \<sigma>1 \<Longrightarrow> rng_only \<sigma>1 \<sigma>2 \<Longrightarrow> rng_only \<sigma> \<sigma>2"
  unfolding rng_only_def by auto

lemma rng_only_fields:
  assumes "rng_only \<sigma> \<sigma>'"
  shows "AGENTS_var \<sigma>' = AGENTS_var \<sigma>" "TEMPLATES_var \<sigma>' = TEMPLATES_var \<sigma>"
    "files \<sigma>' = files \<sigma>" "stdout \<sigma>' = stdout \<sigma>" "io_budget \<sigma>' = io_budget \<sigma>"
    "stdout_unicode \<sigma>' = stdout_unicode \<sigma>" "stdout_broken \<sigma>' = stdout_broken \<sigma>"
  using assms unfolding rng_only_def by auto

lemma generate_sample_frame:
  assumes "generate_sample R agent intent \<sigma> = Inr (r, \<sigma>')"
  shows "rng_only \<sigma> \<sigma>'"
  using assms
  by (auto simp: generate_sample_def choice_def random_float_def rng_only_def
      split: sum.splits prod.splits if_splits)

lemma samples_loop_frame:
  "samples_loop R agent intent n ds \<sigma> = Inr (ds', \<sigma>') \<Longrightarrow> rng_only \<sigma> \<sigma>'"
proof (induction n arbitrary: ds \<sigma>)
  case 0
  then show ?case by (simp add: rng_only_refl)
next
  case (Suc n)
  from Suc.prems obtain r \<sigma>1 where
    g: "generate_sample R agent intent \<sigma> = Inr (r, \<sigma>1)"
    and l: "samples_loop R agent intent n (ds @ [r]) \<sigma>1 = Inr (ds', \<sigma>')"
    by (auto split: sum.splits)
  from generate_sample_frame [OF g] Suc.IH [OF l] show ?case
    by (rule rng_only_trans)
qed

lemma intents_loop_frame:
  "intents_loop R agent intents ds \<sigma> = Inr (ds', \<sigma>') \<Longrightarrow> rng_only \<sigma> \<sigma>'"
proof (induction intents arbitrary: ds \<sigma>)
  case Nil
  then show ?case by (simp add: rng_only_refl)
next
  case (Cons intent intents)
  from Cons.prems obtain ds1 \<sigma>1 where
    g: "samples_loop R agent intent SAMPLES_PER_INTENT ds \<sigma> = Inr (ds1, \<sigma>1)"
    and l: "intents_loop R agent intents ds1 \<sigma>1 = Inr (ds', \<sigma>')"
    by (auto split: sum.splits)
  from samples_loop_frame [OF g] Cons.IH [OF l] show ?case
    by (rule rng_only_trans)
qed

lemma agents_loop_frame:
  "agents_loop R items ds \<sigma> = Inr (ds', \<sigma>') \<Longrightarrow> rng_only \<sigma> \<sigma>'"
proof (induction items arbitrary: ds \<sigma>)
  case Nil
  then show ?case by (simp add: rng_only_refl)
next
  case (Cons item items)
  obtain agent intents where item: "item = (agent, intents)"
    by (cases item)
  from Cons.prems item obtain ds1 \<sigma>1 where
    g: "intents_loop R agent intents ds \<sigma> = Inr (ds1, \<sigma>1)"
    and l: "agents_loop R items ds1 \<sigma>1 = Inr (ds', \<sigma>')"
    by (auto split: sum.splits)
  from intents_loop_frame [OF g] Cons.IH [OF l] show ?case
    by (rule rng_only_trans)
qed

lemma shuffle_frame:
  "shuffle R x \<sigma> = Inr (x', \<sigma>') \<Longrightarrow> rng_only \<sigma> \<sigma>'"
  by (auto simp: shuffle_def rng_only_def split: sum.splits)

lemma build_dataset_frame:
  "build_dataset R \<sigma> = Inr (ds, \<sigma>') \<Longrightarrow> rng_only \<sigma> \<sigma>'"
  unfolding build_dataset_def accumulate_def
  by (auto split: sum.splits dest!: agents_loop_frame shuffle_frame intro: rng_only_trans)

subsection \<open>The accumulation and the shuffle return\<close>

lemma after_sample_rng_only: "rng_only \<sigma> (after_sample R \<sigma>)"
  unfolding rng_only_def after_sample_def by blast

lemma generate_sample_total:
  assumes "rng_ok R" "TEMPLATES_var \<sigma> = TEMPLATES"
  shows "\<exists>r. generate_sample R agent intent \<sigma> = Inr (r, after_sample R \<sigma>) \<and> sample_of R agent intent r"
proof -
  from generate_sample_ok [OF assms, of intent agent] obtain r where
    "generate_sample R agent intent \<sigma> = Inr (r, after_sample R \<sigma>)"
    by blast
  moreover from this assms(2) have "sample_of R agent intent r"
    unfolding sample_of_def by blast
  ultimately show ?thesis by blast
qed

lemma samples_loop_ok:
  assumes "rng_ok R"
  shows "TEMPLATES_var \<sigma> = TEMPLATES \<Longrightarrow>
    \<exists>new \<sigma>'. samples_loop R agent intent n ds \<sigma> = Inr (ds @ new, \<sigma>')
      \<and> made_for R new (replicate n (agent, intent))"
proof (induction n arbitrary: ds \<sigma>)
  case 0
  then show ?case by (simp add: made_for_def)
next
  case (Suc n)
  from generate_sample_total [OF assms Suc.prems, of agent intent] obtain r where
    g: "generate_sample R agent intent \<sigma> = Inr (r, after_sample R \<sigma>)"
    and r: "sample_of R agent intent r"
    by blast
  have "TEMPLATES_var (after_sample R \<sigma>) = TEMPLATES"
    using Suc.prems rng_only_fields(2) [OF after_sample_rng_only, of R \<sigma>] by simp
  from Suc.IH [OF this, of "ds @ [r]"] obtain new \<sigma>' where
    l: "samples_loop R agent intent n (ds @ [r]) (after_sample R \<sigma>) = Inr ((ds @ [r]) @ new, \<sigma>')"
    and m: "made_for R new (replicate n (agent, intent))"
    by blast
  have "samples_loop R agent intent (Suc n) ds \<sigma> = Inr (ds @ (r # new), \<sigma>')"
    using g l by simp
  moreover have "made_for R (r # new) (replicate (Suc n) (agent, intent))"
    using r m by (simp add: made_for_def)
  ultimately show ?case by blast
qed

lemma made_for_append:
  "made_for R xs ps \<Longrightarrow> made_for R ys qs \<Longrightarrow> made_for R (xs @ ys) (ps @ qs)"
  unfolding made_for_def by (rule list_all2_appendI)

lemma intents_loop_ok:
  assumes "rng_ok R"
  shows "TEMPLATES_var \<sigma> = TEMPLATES \<Longrightarrow>
    \<exists>new \<sigma>'. intents_loop R agent intents ds \<sigma> = Inr (ds @ new, \<sigma>')
      \<and> made_for R new (concat (map (replicate SAMPLES_PER_INTENT) (map (Pair agent) intents)))"
proof (induction intents arbitrary: ds \<sigma>)
  case Nil
  then show ?case by (simp add: made_for_def)
next
  case (Cons intent intents)
  from samples_loop_ok [OF assms Cons.prems, of agent intent SAMPLES_PER_INTENT ds]
  obtain new1 \<sigma>1 where
    g: "samples_loop R agent intent SAMPLES_PER_INTENT ds \<sigma> = Inr (ds @ new1, \<sigma>1)"
    and m1: "made_for R new1 (replicate SAMPLES_PER_INTENT (agent, intent))"
    by blast
  have "TEMPLATES_var \<sigma>1 = TEMPLATES"
    using Cons.prems rng_only_fields(2) [OF samples_loop_frame [OF g]] by simp
  from Cons.IH [OF this, of "ds @ new1"] obtain new2 \<sigma>' where
    l: "intents_loop R agent intents (ds @ new1) \<sigma>1 = Inr ((ds @ new1) @ new2, \<sigma>')"
    and m2: "made_for R new2 (concat (map (replicate SAMPLES_PER_INTENT) (map (Pair agent) intents)))"
    by blast
  have "intents_loop R agent (intent # intents) ds \<sigma> = Inr (ds @ (new1 @ new2), \<sigma>')"
    using g l by simp
  moreover have "made_for R (new1 @ new2)
      (concat (map (replicate SAMPLES_PER_INTENT) (map (Pair agent) (intent # intents))))"
    using made_for_append [OF m1 m2] by simp
  ultimately show ?case by blast
qed

lemma expected_pairs_Cons:
  "expected_pairs ((agent, intents) # items) =
     concat (map (replicate SAMPLES_PER_INTENT) (map (Pair agent) intents)) @ expected_pairs items"
  by (simp add: expected_pairs_def catalog_pairs_def)

lemma agents_loop_ok:
  assumes "rng_ok R"
  shows "TEMPLATES_var \<sigma> = TEMPLATES \<Longrightarrow>
    \<exists>new \<sigma>'. agents_loop R items ds \<sigma> = Inr (ds @ new, \<sigma>') \<and> made_for R new (expected_pairs items)"
proof (induction items arbitrary: ds \<sigma>)
  case Nil
  then show ?case by (simp add: made_for_def expected_pairs_def catalog_pairs_def)
next
  case (Cons item items)
  obtain agent intents where item: "item = (agent, intents)"
    by (cases item)
  from intents_loop_ok [OF assms Cons.prems, of agent intents ds]
  obtain new1 \<sigma>1 where
    g: "intents_loop R agent intents ds \<sigma> = Inr (ds @ new1, \<sigma>1)"
    and m1: "made_for R new1 (concat (map (replicate SAMPLES_PER_INTENT) (map (Pair agent) intents)))"
    by blast
  have "TEMPLATES_var \<sigma>1 = TEMPLATES"
    using Cons.prems rng_only_fields(2) [OF intents_loop_frame [OF g]] by simp
  from Cons.IH [OF this, of "ds @ new1"] obtain new2 \<sigma>' where
    l: "agents_loop R items (ds @ new1) \<sigma>1 = Inr ((ds @ new1) @ new2, \<sigma>')"
    and m2: "made_for R new2 (expected_pairs items)"
    by blast
  have "agents_loop R (item # items) ds \<sigma> = Inr (ds @ (new1 @ new2), \<sigma>')"
    using g l item by simp
  moreover have "made_for R (new1 @ new2) (expected_pairs (item # items))"
    using made_for_append [OF m1 m2] item by (simp only: expected_pairs_Cons)
  ultimately show ?case by blast
qed

lemma accumulate_ok:
  assumes "rng_ok R" "TEMPLATES_var \<sigma> = TEMPLATES"
  shows "\<exists>acc \<sigma>'. accumulate R \<sigma> = Inr (acc, \<sigma>') \<and> made_for R acc (expected_pairs (AGENTS_var \<sigma>))
     \<and> rng_only \<sigma> \<sigma>'"
proof -
  from agents_loop_ok [OF assms, of "AGENTS_var \<sigma>" "[]"] obtain acc \<sigma>' where
    a: "agents_loop R (AGENTS_var \<sigma>) [] \<sigma> = Inr (acc, \<sigma>')"
    and m: "made_for R acc (expected_pairs (AGENTS_var \<sigma>))"
    by auto
  from agents_loop_frame [OF a] a m show ?thesis
    unfolding accumulate_def by blast
qed

lemma shuffle_loop_ok:
  assumes "rng_ok R"
  shows "k < length x \<or> k = 0 \<Longrightarrow>
    \<exists>x' s'. shuffle_loop R k x s = Inr (x', s') \<and> mset x' = mset x"
proof (induction k arbitrary: x s)
  case 0
  then show ?case by simp
next
  case (Suc k)
  obtain j s1 where d: "rs_randbelow R (Suc k + 1) s = (j, s1)"
    by (cases "rs_randbelow R (Suc k + 1) s")
  have "fst (rs_randbelow R (Suc k + 1) s) < Suc k + 1"
    using assms unfolding rng_ok_def by blast
  with d have j: "j < Suc k + 1" by simp
  from Suc.prems have i: "Suc k < length x" by simp
  with j have jx: "j < length x" by simp
  let ?x = "x[Suc k := x ! j, j := x ! Suc k]"
  have ms: "mset ?x = mset x"
    using jx i by (rule mset_swap)
  have "k < length ?x" using i by simp
  then have "k < length ?x \<or> k = 0" by simp
  from Suc.IH [OF this, of s1] obtain x' s' where
    "shuffle_loop R k ?x s1 = Inr (x', s')" "mset x' = mset ?x"
    by blast
  with ms d i jx show ?case by simp
qed

lemma shuffle_ok:
  assumes "rng_ok R"
  shows "\<exists>x' \<sigma>'. shuffle R x \<sigma> = Inr (x', \<sigma>') \<and> mset x' = mset x \<and> rng_only \<sigma> \<sigma>'"
proof -
  have "length x - 1 < length x \<or> length x - 1 = 0"
    by (cases x) simp_all
  from shuffle_loop_ok [OF assms this, of "rng \<sigma>"] obtain x' s' where
    l: "shuffle_loop R (length x - 1) x (rng \<sigma>) = Inr (x', s')" and m: "mset x' = mset x"
    by blast
  then have "shuffle R x \<sigma> = Inr (x', \<sigma>\<lparr>rng := s'\<rparr>)"
    by (simp add: shuffle_def)
  with m show ?thesis
    unfolding rng_only_def by blast
qed

lemma build_dataset_ok:
  assumes "rng_ok R" "TEMPLATES_var \<sigma> = TEMPLATES"
  shows "\<exists>acc \<sigma>1 ds \<sigma>'. accumulate R \<sigma> = Inr (acc, \<sigma>1) \<and> build_dataset R \<sigma> = Inr (ds, \<sigma>')
     \<and> made_for R acc (expected_pairs (AGENTS_var \<sigma>)) \<and> mset ds = mset acc \<and> rng_only \<sigma> \<sigma>'"
proof -
  from accumulate_ok [OF assms] obtain acc \<sigma>1 where
    a: "accumulate R \<sigma> = Inr (acc, \<sigma>1)" "made_for R acc (expected_pairs (AGENTS_var \<sigma>))"
       "rng_only \<sigma> \<sigma>1"
    by blast
  from shuffle_ok [OF assms(1), of acc \<sigma>1] obtain ds \<sigma>' where
    s: "shuffle R acc \<sigma>1 = Inr (ds, \<sigma>')" "mset ds = mset acc" "rng_only \<sigma>1 \<sigma>'"
    by blast
  have "build_dataset R \<sigma> = Inr (ds, \<sigma>')"
    using a(1) s(1) by (simp add: build_dataset_def)
  with a s rng_only_trans [OF a(3) s(3)] show ?thesis by blast
qed

subsection \<open>A run of the script, and the size of the dataset\<close>

lemma rng_ok_counter_source: "rng_ok counter_source"
  by (simp add: rng_ok_def counter_source_def)

lemma start_state_fields:
  "AGENTS_var (start_state s) = AGENTS" "TEMPLATES_var (start_state s) = TEMPLATES"
  "rng (start_state s) = s" "io_budget (start_state s) = None" "stdout (start_state s) = []"
  "stdout_unicode (start_state s)" "\<not> stdout_broken (start_state s)"
  by (simp_all add: start_state_def module_init_def)

lemma loaded_start_state: "loaded (start_state s)"
  by (simp add: loaded_def start_state_fields)

lemma length_expected_pairs:
  "length (expected_pairs items) =
     (\<Sum>(agent, intents) \<leftarrow> items. length intents * SAMPLES_PER_INTENT)"
proof (induction items)
  case Nil
  show ?case by (simp add: expected_pairs_def catalog_pairs_def)
next
  case (Cons item items)
  obtain agent intents where item: "item = (agent, intents)"
    by (cases item)
  have "length (concat (map (replicate SAMPLES_PER_INTENT) (map (Pair agent) intents)))
      = length intents * SAMPLES_PER_INTENT"
    by (induction intents) simp_all
  with Cons.IH item show ?case
    by (simp add: expected_pairs_Cons)
qed

lemma made_for_length: "made_for R rs ps \<Longrightarrow> length rs = length ps"
  unfolding made_for_def by (rule list_all2_lengthD)

lemma catalog_size: "(\<Sum>(agent, intents) \<leftarrow> AGENTS. length intents * SAMPLES_PER_INTENT) = 800"
  by (simp add: AGENTS_def SAMPLES_PER_INTENT_def)

subsection \<open>The records and the catalog\<close>

lemma sample_of_routes_to:
  assumes "sample_of R agent intent r"
  shows "routes_to r agent intent"
proof -
  from assms obtain \<sigma> \<sigma>' where "generate_sample R agent intent \<sigma> = Inr (r, \<sigma>')"
    unfolding sample_of_def by blast
  then show ?thesis
    by (auto simp: generate_sample_def routes_to_def split: sum.splits prod.splits)
qed

lemma routes_to_unique:
  "routes_to r agent intent \<Longrightarrow> routes_to r agent' intent' \<Longrightarrow> agent = agent' \<and> intent = intent'"
  unfolding routes_to_def using routing_decision_inj [of agent intent agent' intent'] by simp

lemma sample_of_input:
  assumes "rng_ok R" and "sample_of R agent intent r"
  shows "\<exists>k u. k < length TEMPLATES \<and> fills (TEMPLATES ! k) intent u \<and> u \<noteq> []
     \<and> (rec_input r = u \<or> rec_input r = lower u)"
proof -
  from assms(2) obtain \<sigma> \<sigma>' where
    t: "TEMPLATES_var \<sigma> = TEMPLATES" and g: "generate_sample R agent intent \<sigma> = Inr (r, \<sigma>')"
    unfolding sample_of_def by blast
  from generate_sample_ok [OF assms(1) t, of intent agent] g obtain u where
    "fills (TEMPLATES ! template_draw R \<sigma>) intent u" "u \<noteq> []" "template_draw R \<sigma> < 5"
    "rec_input r = (if lowercase_draw R \<sigma> < float_0_1 then lower u else u)"
    by auto
  then show ?thesis
    by (auto simp: length_TEMPLATES)
qed

lemma lower_append: "lower (xs @ ys) = lower xs @ lower ys"
  by (simp add: lower_def)


lemma fills_sublist:
  assumes "fills t intent u"
  shows "sublist intent u" and "lower intent = intent \<Longrightarrow> sublist intent (lower u)"
proof -
  from assms obtain pre post where u: "u = pre @ intent @ post"
    unfolding fills_def by blast
  then show "sublist intent u" by simp
  assume "lower intent = intent"
  with u have "lower u = lower pre @ intent @ lower post"
    by (simp add: lower_append)
  then show "sublist intent (lower u)" by simp
qed

lemma in_catalog_pairs:
  "(agent, intent) \<in> set (catalog_pairs items) \<longleftrightarrow>
     (\<exists>intents. (agent, intents) \<in> set items \<and> intent \<in> set intents)"
  unfolding catalog_pairs_def by auto

lemma distinct_keys_AGENTS: "distinct (map fst AGENTS)"
  by (simp add: AGENTS_def)

lemma catalog_pairs_lookup:
  "(agent, intent) \<in> set (catalog_pairs AGENTS) \<longleftrightarrow>
     (\<exists>intents. map_of AGENTS agent = Some intents \<and> intent \<in> set intents)"
  by (simp add: in_catalog_pairs map_of_eq_Some_iff [OF distinct_keys_AGENTS])

lemma catalog_pairs_AGENTS:
  "catalog_pairs AGENTS =
    [(''agent_hr'', ''payroll issue''), (''agent_hr'', ''holiday request''),
     (''agent_hr'', ''benefits question''), (''agent_hr'', ''onboarding''),
     (''agent_it'', ''vpn access''), (''agent_it'', ''password reset''),
     (''agent_it'', ''laptop repair''), (''agent_it'', ''software license''),
     (''agent_sales'', ''customer lead''), (''agent_sales'', ''sales report''),
     (''agent_sales'', ''crm update''), (''agent_sales'', ''contract renewal''),
     (''agent_data'', ''sql query''), (''agent_data'', ''dashboard access''),
     (''agent_data'', ''data warehouse''), (''agent_data'', ''snowflake'')]"
  by (simp add: catalog_pairs_def AGENTS_def)

lemma distinct_catalog_pairs_AGENTS: "distinct (catalog_pairs AGENTS)"
  unfolding catalog_pairs_AGENTS by simp

lemma lower_catalog_intents:
  "(agent, intent) \<in> set (catalog_pairs AGENTS) \<Longrightarrow> lower intent = intent"
  unfolding catalog_pairs_AGENTS by (auto simp: lower_def lower_char_def)

lemma set_expected_pairs: "set (expected_pairs items) \<subseteq> set (catalog_pairs items)"
  unfolding expected_pairs_def by auto

lemma made_for_set:
  "made_for R rs ps \<Longrightarrow> r \<in> set rs \<Longrightarrow> \<exists>p \<in> set ps. sample_of R (fst p) (snd p) r"
  unfolding made_for_def
  by (induction rs ps rule: list_all2_induct) auto

lemma count_list_replicate: "count_list (replicate n p) q = (if p = q then n else 0)"
  by (induction n) auto

lemma count_list_concat_replicate:
  "count_list (concat (map (replicate n) ps)) q = n * count_list ps q"
  by (induction ps) (simp_all add: count_list_replicate)

lemma count_list_expected_pairs:
  "count_list (expected_pairs items) q = SAMPLES_PER_INTENT * count_list (catalog_pairs items) q"
  unfolding expected_pairs_def by (rule count_list_concat_replicate)

subsection \<open>Counting the records of a pair\<close>

lemma count_made_for:
  assumes "made_for R rs ps"
  shows "length (filter (sample_of R agent intent) rs) = count_list ps (agent, intent)"
  using assms unfolding made_for_def
proof (induction rs ps rule: list_all2_induct)
  case Nil
  show ?case by simp
next
  case (Cons r rs p ps)
  have "sample_of R agent intent r \<longleftrightarrow> p = (agent, intent)"
  proof
    assume "sample_of R agent intent r"
    with Cons.hyps(1) have "fst p = agent \<and> snd p = intent"
      using routes_to_unique [OF sample_of_routes_to sample_of_routes_to] by blast
    then show "p = (agent, intent)" by auto
  next
    assume "p = (agent, intent)"
    with Cons.hyps(1) show "sample_of R agent intent r" by simp
  qed
  with Cons.IH show ?case by simp
qed

lemma count_list_distinct: "distinct xs \<Longrightarrow> x \<in> set xs \<Longrightarrow> count_list xs x = 1"
  by (induction xs) auto

lemma dataset_of_catalog:
  assumes "rng_ok R" and "loaded \<sigma>"
  shows "\<exists>acc \<sigma>1 ds \<sigma>'. accumulate R \<sigma> = Inr (acc, \<sigma>1) \<and> build_dataset R \<sigma> = Inr (ds, \<sigma>')
     \<and> made_for R acc (expected_pairs AGENTS) \<and> mset ds = mset acc
     \<and> (\<forall>r \<in> set ds. \<exists>p \<in> set (catalog_pairs AGENTS). sample_of R (fst p) (snd p) r)"
proof -
  from assms(2) have t: "TEMPLATES_var \<sigma> = TEMPLATES" and a: "AGENTS_var \<sigma> = AGENTS"
    by (simp_all add: loaded_def)
  from build_dataset_ok [OF assms(1) t] a obtain acc \<sigma>1 ds \<sigma>' where
    b: "accumulate R \<sigma> = Inr (acc, \<sigma>1)" "build_dataset R \<sigma> = Inr (ds, \<sigma>')"
       "made_for R acc (expected_pairs AGENTS)" "mset ds = mset acc"
    by auto
  have "\<exists>p \<in> set (catalog_pairs AGENTS). sample_of R (fst p) (snd p) r" if "r \<in> set ds" for r
  proof -
    from that b(4) have "r \<in> set acc"
      using mset_eq_setD by blast
    from made_for_set [OF b(3) this] set_expected_pairs [of AGENTS] show ?thesis
      by blast
  qed
  with b show ?thesis by blast
qed

subsection \<open>The file operations\<close>

lemma io_op_ok: "io_allows (Suc n) \<sigma> \<Longrightarrow> io_op \<sigma> = Inr (spend 1 \<sigma>)"
  by (cases "io_budget \<sigma>") (auto simp: io_allows_def io_op_def spend_def split: nat.splits)

lemma io_op_error: "io_op \<sigma> = Inl e \<Longrightarrow> e = OSError"
  by (auto simp: io_op_def split: option.splits nat.splits)

lemma io_op_cases:
  "io_op \<sigma> = Inl OSError \<and> io_budget \<sigma> = Some 0
   \<or> io_op \<sigma> = Inr (spend 1 \<sigma>) \<and> io_allows 1 \<sigma>"
  by (cases "io_budget \<sigma>") (auto simp: io_allows_def io_op_def spend_def split: nat.splits)

lemma io_allows_spend: "io_allows (m + n) \<sigma> \<Longrightarrow> io_allows n (spend m \<sigma>)"
  by (cases "io_budget \<sigma>") (auto simp: io_allows_def spend_def)

lemma not_io_allows_spend: "\<not> io_allows (m + n) \<sigma> \<Longrightarrow> io_allows m \<sigma> \<Longrightarrow> \<not> io_allows n (spend m \<sigma>)"
  by (cases "io_budget \<sigma>") (auto simp: io_allows_def spend_def)

lemma io_allows_mono: "io_allows n \<sigma> \<Longrightarrow> m \<le> n \<Longrightarrow> io_allows m \<sigma>"
  by (cases "io_budget \<sigma>") (auto simp: io_allows_def)

lemma spend_spend: "spend n (spend m \<sigma>) = spend (m + n) \<sigma>"
  by (cases "io_budget \<sigma>") (auto simp: spend_def)

lemma spend_files_update: "spend n (\<sigma>\<lparr>files := f\<rparr>) = (spend n \<sigma>)\<lparr>files := f\<rparr>"
  by (simp add: spend_def)

lemma spend_fields:
  "AGENTS_var (spend n \<sigma>) = AGENTS_var \<sigma>" "TEMPLATES_var (spend n \<sigma>) = TEMPLATES_var \<sigma>"
  "rng (spend n \<sigma>) = rng \<sigma>" "files (spend n \<sigma>) = files \<sigma>" "stdout (spend n \<sigma>) = stdout \<sigma>"
  "stdout_unicode (spend n \<sigma>) = stdout_unicode \<sigma>" "stdout_broken (spend n \<sigma>) = stdout_broken \<sigma>"
  by (simp_all add: spend_def)

lemma io_allows_files_update: "io_allows n (\<sigma>\<lparr>files := f\<rparr>) = io_allows n \<sigma>"
  by (simp add: io_allows_def)

lemma file_write_ok:
  assumes "io_allows (Suc n) \<sigma>" and "files \<sigma> path = Some old"
  shows "file_write path data \<sigma> = Inr ((spend 1 \<sigma>)\<lparr>files := (files \<sigma>)(path \<mapsto> old @ data)\<rparr>)"
  using io_op_ok [OF assms(1)] assms(2) by (simp add: file_write_def spend_fields)

lemma write_loop_ok:
  "io_allows (length ds) \<sigma> \<Longrightarrow> files \<sigma> path = Some old \<Longrightarrow>
   write_loop path ds \<sigma> = Inr ((spend (length ds) \<sigma>)\<lparr>files := (files \<sigma>)(path \<mapsto> old @ jsonl ds)\<rparr>)"
proof (induction ds arbitrary: \<sigma> old)
  case Nil
  have "spend 0 \<sigma> = \<sigma>"
    by (cases "io_budget \<sigma>") (simp_all add: spend_def)
  moreover have "(files \<sigma>)(path \<mapsto> old) = files \<sigma>"
    using Nil.prems(2) by (rule map_upd_triv)
  ultimately show ?case by (simp add: jsonl_def)
next
  case (Cons entry ds)
  let ?\<sigma>1 = "(spend 1 \<sigma>)\<lparr>files := (files \<sigma>)(path \<mapsto> old @ jsonl_line entry)\<rparr>"
  from Cons.prems have a: "io_allows (Suc (length ds)) \<sigma>" by simp
  have w: "file_write path (json_dumps_entry entry @ [CHR 0x0A]) \<sigma> = Inr ?\<sigma>1"
    using file_write_ok [OF a Cons.prems(2)] by (simp add: jsonl_line_def)
  have "io_allows (length ds) (spend 1 \<sigma>)"
    using a io_allows_spend [of 1 "length ds" \<sigma>] by simp
  then have a1: "io_allows (length ds) ?\<sigma>1"
    by (simp add: io_allows_files_update)
  have f1: "files ?\<sigma>1 path = Some (old @ jsonl_line entry)"
    by simp
  have "write_loop path (entry # ds) \<sigma> = write_loop path ds ?\<sigma>1"
    using w by simp
  also have "\<dots> = Inr ((spend (length ds) ?\<sigma>1)
      \<lparr>files := (files ?\<sigma>1)(path \<mapsto> (old @ jsonl_line entry) @ jsonl ds)\<rparr>)"
    using a1 f1 by (rule Cons.IH)
  also have "(spend (length ds) ?\<sigma>1)\<lparr>files := (files ?\<sigma>1)(path \<mapsto> (old @ jsonl_line entry) @ jsonl ds)\<rparr>
      = (spend (length (entry # ds)) \<sigma>)\<lparr>files := (files \<sigma>)(path \<mapsto> old @ jsonl (entry # ds))\<rparr>"
    by (simp add: spend_files_update spend_spend jsonl_def)
  finally show ?case .
qed

lemma file_write_error: "file_write path data \<sigma> = Inl e \<Longrightarrow> e = OSError"
  by (auto simp: file_write_def split: sum.splits dest: io_op_error)

lemma write_loop_error: "write_loop path ds \<sigma> = Inl e \<Longrightarrow> e = OSError"
  by (induction ds arbitrary: \<sigma>) (auto split: sum.splits dest: file_write_error)

lemma write_loop_fail:
  "\<not> io_allows (length ds) \<sigma> \<Longrightarrow> write_loop path ds \<sigma> = Inl OSError"
proof (induction ds arbitrary: \<sigma>)
  case Nil
  then show ?case by (cases "io_budget \<sigma>") (simp_all add: io_allows_def)
next
  case (Cons entry ds)
  from io_op_cases [of \<sigma>] show ?case
  proof (elim disjE conjE)
    assume "io_op \<sigma> = Inl OSError"
    then show ?thesis by (simp add: file_write_def)
  next
    assume o: "io_op \<sigma> = Inr (spend 1 \<sigma>)" and a: "io_allows 1 \<sigma>"
    let ?\<sigma>1 = "(spend 1 \<sigma>)\<lparr>files := (files (spend 1 \<sigma>))(path \<mapsto>
        (case files (spend 1 \<sigma>) path of None \<Rightarrow> [] | Some old \<Rightarrow> old) @ json_dumps_entry entry @ [CHR 0x0A])\<rparr>"
    have w: "file_write path (json_dumps_entry entry @ [CHR 0x0A]) \<sigma> = Inr ?\<sigma>1"
      using o by (simp add: file_write_def)
    have "\<not> io_allows (length ds) (spend 1 \<sigma>)"
      using Cons.prems a not_io_allows_spend [of 1 "length ds" \<sigma>] by simp
    then have "\<not> io_allows (length ds) ?\<sigma>1"
      by (simp add: io_allows_files_update)
    then have "write_loop path ds ?\<sigma>1 = Inl OSError"
      by (rule Cons.IH)
    with w show ?thesis by simp
  qed
qed

lemma open_w_ok:
  "io_allows (Suc n) \<sigma> \<Longrightarrow> open_w path \<sigma> = Inr ((spend 1 \<sigma>)\<lparr>files := (files \<sigma>)(path \<mapsto> [])\<rparr>)"
  using io_op_ok [of n \<sigma>] by (simp add: open_w_def spend_fields)

lemma persist_ok:
  assumes "io_allows (length ds + 2) \<sigma>"
  shows "persist path ds \<sigma> = Inr ((spend (length ds + 2) \<sigma>)\<lparr>files := (files \<sigma>)(path \<mapsto> jsonl ds)\<rparr>)"
proof -
  let ?\<sigma>1 = "(spend 1 \<sigma>)\<lparr>files := (files \<sigma>)(path \<mapsto> [])\<rparr>"
  let ?\<sigma>2 = "(spend (length ds) ?\<sigma>1)\<lparr>files := (files ?\<sigma>1)(path \<mapsto> [] @ jsonl ds)\<rparr>"
  from assms have "io_allows (Suc (Suc (length ds))) \<sigma>" by simp
  then have o: "open_w path \<sigma> = Inr ?\<sigma>1"
    by (rule open_w_ok)
  have "io_allows (Suc (length ds)) (spend 1 \<sigma>)"
    using assms io_allows_spend [of 1 "Suc (length ds)" \<sigma>] by simp
  then have a1: "io_allows (Suc (length ds)) ?\<sigma>1"
    by (simp add: io_allows_files_update)
  then have "io_allows (length ds) ?\<sigma>1"
    by (rule io_allows_mono) simp
  moreover have "files ?\<sigma>1 path = Some []" by simp
  ultimately have w: "write_loop path ds ?\<sigma>1 = Inr ?\<sigma>2"
    by (rule write_loop_ok)
  have "io_allows 1 (spend (length ds) ?\<sigma>1)"
    using a1 io_allows_spend [of "length ds" 1 ?\<sigma>1] by simp
  then have "io_allows (Suc 0) ?\<sigma>2"
    by (simp add: io_allows_files_update)
  then have c: "file_close path ?\<sigma>2 = Inr (spend 1 ?\<sigma>2)"
    unfolding file_close_def by (rule io_op_ok)
  have "spend 1 ?\<sigma>2 = (spend (length ds + 2) \<sigma>)\<lparr>files := (files \<sigma>)(path \<mapsto> jsonl ds)\<rparr>"
    by (simp add: spend_files_update spend_spend)
  with o w c show ?thesis
    by (simp add: persist_def)
qed

lemma persist_error: "persist path ds \<sigma> = Inl e \<Longrightarrow> e = OSError"
  by (auto simp: persist_def open_w_def file_close_def split: sum.splits
      dest: io_op_error write_loop_error)

lemma persist_fail:
  assumes "\<not> io_allows (length ds + 2) \<sigma>"
  shows "persist path ds \<sigma> = Inl OSError"
proof -
  have "\<exists>e. persist path ds \<sigma> = Inl e"
  proof (rule ccontr)
    assume "\<not> (\<exists>e. persist path ds \<sigma> = Inl e)"
    then obtain \<sigma>' where p: "persist path ds \<sigma> = Inr \<sigma>'"
      by (cases "persist path ds \<sigma>") auto
    then obtain \<sigma>1 \<sigma>2 where
      o: "open_w path \<sigma> = Inr \<sigma>1" and w: "write_loop path ds \<sigma>1 = Inr \<sigma>2"
      and c: "io_op \<sigma>2 = Inr \<sigma>'"
      by (auto simp: persist_def file_close_def split: sum.splits)
    from o have a: "io_allows 1 \<sigma>"
      using io_op_cases [of \<sigma>] by (auto simp: open_w_def)
    with o have s1: "\<sigma>1 = (spend 1 \<sigma>)\<lparr>files := (files \<sigma>)(path \<mapsto> [])\<rparr>"
      using open_w_ok [of 0 \<sigma> path] by simp
    have a1: "io_allows (length ds) \<sigma>1"
      using w write_loop_fail [of ds \<sigma>1 path] by auto
    have "files \<sigma>1 path = Some []"
      using s1 by simp
    from write_loop_ok [OF a1 this] w have
      s2: "\<sigma>2 = (spend (length ds) \<sigma>1)\<lparr>files := (files \<sigma>1)(path \<mapsto> [] @ jsonl ds)\<rparr>"
      by simp
    from c have "io_allows 1 \<sigma>2"
      using io_op_cases [of \<sigma>2] by auto
    then have "io_allows 1 (spend (length ds) \<sigma>1)"
      unfolding s2 by (simp add: io_allows_files_update)
    with a1 have "io_allows (length ds + 1) \<sigma>1"
      using not_io_allows_spend [of "length ds" 1 \<sigma>1] by blast
    then have "io_allows (length ds + 1) (spend 1 \<sigma>)"
      unfolding s1 by (simp add: io_allows_files_update)
    with a have "io_allows (1 + (length ds + 1)) \<sigma>"
      using not_io_allows_spend [of 1 "length ds + 1" \<sigma>] by blast
    with assms show False by simp
  qed
  then show ?thesis
    using persist_error by blast
qed

subsection \<open>The whole script\<close>

lemma printed_fields:
  "AGENTS_var (printed line \<sigma>) = AGENTS_var \<sigma>" "TEMPLATES_var (printed line \<sigma>) = TEMPLATES_var \<sigma>"
  "rng (printed line \<sigma>) = rng \<sigma>" "files (printed line \<sigma>) = files \<sigma>"
  "stdout (printed line \<sigma>) = stdout \<sigma> @ [line]" "io_budget (printed line \<sigma>) = io_budget \<sigma>"
  "stdout_unicode (printed line \<sigma>) = stdout_unicode \<sigma>"
  "stdout_broken (printed line \<sigma>) = stdout_broken \<sigma>"
  by (simp_all add: printed_def)

lemma print_ok: "stdout_ok \<sigma> \<Longrightarrow> print line \<sigma> = Inr (printed line \<sigma>)"
  by (simp add: print_def printed_def stdout_ok_def)

lemma print_Inr: "print line \<sigma> = Inr \<sigma>' \<Longrightarrow> \<sigma>' = printed line \<sigma>"
  by (simp add: print_def printed_def split: if_splits)

lemma print_not_encoded:
  "\<not> stdout_unicode \<sigma> \<Longrightarrow> \<exists>c \<in> set line. 128 \<le> (of_char c :: nat)
   \<Longrightarrow> print line \<sigma> = Inl UnicodeEncodeError"
  by (simp add: print_def)

lemma print_broken: "stdout_unicode \<sigma> \<Longrightarrow> stdout_broken \<sigma> \<Longrightarrow> print line \<sigma> = Inl OSError"
  by (simp add: print_def)

lemma msg_start_pictograph: "\<exists>c \<in> set msg_start. 128 \<le> (of_char c :: nat)"
  by (simp add: msg_start_def)

lemma stdout_ok_cong:
  "stdout_unicode \<sigma>' = stdout_unicode \<sigma> \<Longrightarrow> stdout_broken \<sigma>' = stdout_broken \<sigma>
   \<Longrightarrow> stdout_ok \<sigma> \<Longrightarrow> stdout_ok \<sigma>'"
  by (simp add: stdout_ok_def)

lemma build_dataset_loaded:
  assumes "rng_ok R" and "loaded \<sigma>"
  shows "\<exists>ds \<sigma>'. build_dataset R \<sigma> = Inr (ds, \<sigma>') \<and> length ds = 800 \<and> rng_only \<sigma> \<sigma>'"
proof -
  from assms(2) have t: "TEMPLATES_var \<sigma> = TEMPLATES" and a: "AGENTS_var \<sigma> = AGENTS"
    by (simp_all add: loaded_def)
  from build_dataset_ok [OF assms(1) t] a obtain acc ds \<sigma>' where
    b: "build_dataset R \<sigma> = Inr (ds, \<sigma>')" "made_for R acc (expected_pairs AGENTS)"
       "mset ds = mset acc" "rng_only \<sigma> \<sigma>'"
    by auto
  have "length ds = length acc"
    using b(3) by (rule mset_eq_length)
  also have "\<dots> = length (expected_pairs AGENTS)"
    using b(2) by (rule made_for_length)
  also have "\<dots> = 800"
    by (simp only: length_expected_pairs catalog_size)
  finally show ?thesis using b by blast
qed

lemma main_ok:
  assumes "rng_ok R" and "loaded \<sigma>" and "io_allows 802 \<sigma>" and "stdout_ok \<sigma>"
  shows "\<exists>ds \<sigma>1. build_dataset R (printed msg_start \<sigma>) = Inr (ds, \<sigma>1)
     \<and> rng_only (printed msg_start \<sigma>) \<sigma>1 \<and> length ds = 800
     \<and> main R \<sigma> = Inr (printed msg_next (printed (msg_generated (length ds))
          ((spend 802 \<sigma>1)\<lparr>files := (files \<sigma>1)(filename \<mapsto> jsonl ds)\<rparr>)))"
proof -
  have p0: "print msg_start \<sigma> = Inr (printed msg_start \<sigma>)"
    using assms(4) by (rule print_ok)
  have "loaded (printed msg_start \<sigma>)"
    using assms(2) by (simp add: loaded_def printed_fields)
  from build_dataset_loaded [OF assms(1) this] obtain ds \<sigma>1 where
    b: "build_dataset R (printed msg_start \<sigma>) = Inr (ds, \<sigma>1)" "length ds = 800"
       "rng_only (printed msg_start \<sigma>) \<sigma>1"
    by blast
  note f = rng_only_fields [OF b(3)]
  have "io_budget \<sigma>1 = io_budget \<sigma>"
    using f(5) by (simp add: printed_fields)
  then have "io_allows (length ds + 2) \<sigma>1"
    using assms(3) b(2) by (simp add: io_allows_def)
  from persist_ok [OF this, of filename] b(2) have
    p: "persist filename ds \<sigma>1 = Inr ((spend 802 \<sigma>1)\<lparr>files := (files \<sigma>1)(filename \<mapsto> jsonl ds)\<rparr>)"
    by simp
  let ?\<sigma>2 = "(spend 802 \<sigma>1)\<lparr>files := (files \<sigma>1)(filename \<mapsto> jsonl ds)\<rparr>"
  have o1: "stdout_ok \<sigma>1"
    using assms(4) f(6,7) by (simp add: stdout_ok_def printed_fields)
  then have o2: "stdout_ok ?\<sigma>2"
    by (simp add: stdout_ok_def spend_fields)
  then have p2: "print (msg_generated (length ds)) ?\<sigma>2 = Inr (printed (msg_generated (length ds)) ?\<sigma>2)"
    by (rule print_ok)
  have "stdout_ok (printed (msg_generated (length ds)) ?\<sigma>2)"
    using o2 by (simp add: stdout_ok_def printed_fields)
  then have p3: "print msg_next (printed (msg_generated (length ds)) ?\<sigma>2)
      = Inr (printed msg_next (printed (msg_generated (length ds)) ?\<sigma>2))"
    by (rule print_ok)
  have "main R \<sigma> = Inr (printed msg_next (printed (msg_generated (length ds)) ?\<sigma>2))"
    unfolding main_def p0 using b(1) p p2 p3 by simp
  with b show ?thesis by blast
qed

lemma main_not_encoded: "\<not> stdout_unicode \<sigma> \<Longrightarrow> main R \<sigma> = Inl UnicodeEncodeError"
  using print_not_encoded [OF _ msg_start_pictograph, of \<sigma>] by (simp add: main_def)

lemma main_broken: "stdout_unicode \<sigma> \<Longrightarrow> stdout_broken \<sigma> \<Longrightarrow> main R \<sigma> = Inl OSError"
  using print_broken [of \<sigma> msg_start] by (simp add: main_def)

lemma main_fail:
  assumes "rng_ok R" and "loaded \<sigma>" and "\<not> io_allows 802 \<sigma>" and "stdout_ok \<sigma>"
  shows "main R \<sigma> = Inl OSError"
proof -
  have p0: "print msg_start \<sigma> = Inr (printed msg_start \<sigma>)"
    using assms(4) by (rule print_ok)
  have "loaded (printed msg_start \<sigma>)"
    using assms(2) by (simp add: loaded_def printed_fields)
  from build_dataset_loaded [OF assms(1) this] obtain ds \<sigma>1 where
    b: "build_dataset R (printed msg_start \<sigma>) = Inr (ds, \<sigma>1)" "length ds = 800"
       "rng_only (printed msg_start \<sigma>) \<sigma>1"
    by blast
  have "io_budget \<sigma>1 = io_budget \<sigma>"
    using rng_only_fields(5) [OF b(3)] by (simp add: printed_fields)
  then have "\<not> io_allows (length ds + 2) \<sigma>1"
    using assms(3) b(2) by (simp add: io_allows_def)
  then have "persist filename ds \<sigma>1 = Inl OSError"
    by (rule persist_fail)
  with b(1) show ?thesis
    unfolding main_def p0 by simp
qed

lemma persist_globals:
  assumes "persist path ds \<sigma> = Inr \<sigma>'"
  shows "globals_kept \<sigma> \<sigma>'"
proof -
  have "io_allows (length ds + 2) \<sigma>"
    using assms persist_fail [of ds \<sigma> path] by auto
  from persist_ok [OF this, of path] assms show ?thesis
    by (auto simp: globals_kept_def spend_fields)
qed

lemma main_globals:
  assumes "main R \<sigma> = Inr \<sigma>'"
  shows "globals_kept \<sigma> \<sigma>'"
proof -
  from assms obtain \<sigma>0 ds \<sigma>1 \<sigma>2 \<sigma>3 where
    p0: "print msg_start \<sigma> = Inr \<sigma>0"
    and b: "build_dataset R \<sigma>0 = Inr (ds, \<sigma>1)"
    and p: "persist filename ds \<sigma>1 = Inr \<sigma>2"
    and p2: "print (msg_generated (length ds)) \<sigma>2 = Inr \<sigma>3"
    and p3: "print msg_next \<sigma>3 = Inr \<sigma>'"
    by (auto simp: main_def split: sum.splits)
  have "globals_kept \<sigma> \<sigma>0"
    using print_Inr [OF p0] by (simp add: globals_kept_def printed_fields)
  moreover have "globals_kept \<sigma>0 \<sigma>1"
    using rng_only_fields(1,2) [OF build_dataset_frame [OF b]] by (simp add: globals_kept_def)
  moreover from p have "globals_kept \<sigma>1 \<sigma>2"
    by (rule persist_globals)
  moreover have "globals_kept \<sigma>2 \<sigma>3"
    using print_Inr [OF p2] by (simp add: globals_kept_def printed_fields)
  moreover have "globals_kept \<sigma>3 \<sigma>'"
    using print_Inr [OF p3] by (simp add: globals_kept_def printed_fields)
  ultimately show ?thesis
    by (simp add: globals_kept_def)
qed

lemma newlines_jsonl: "length (filter (\<lambda>c. c = CHR 0x0A) (jsonl ds)) = length ds"
proof (induction ds)
  case Nil
  show ?case by (simp add: jsonl_def)
next
  case (Cons entry ds)
  have "filter (\<lambda>c. c = CHR 0x0A) (json_dumps_entry entry) = []"
    using json_dumps_entry_no_newline [of entry] by (auto simp: filter_empty_conv)
  with Cons show ?case
    by (simp add: jsonl_def jsonl_line_def)
qed

lemma msg_generated_800:
  "msg_generated 800 =
     [CHR 0xE2, CHR 0x9C, CHR 0x85] @ '' Generated 800 examples in edgeneuro_training_data.jsonl''"
  by (simp add: msg_generated_def filename_def str_nat.simps)

subsection \<open>Two runs on the same draws\<close>

lemma same_resultE:
  assumes "same_result rel x y"
  obtains (fail) e where "x = Inl e" "y = Inl e"
  | (return) a \<sigma>' \<tau>' where "x = Inr (a, \<sigma>')" "y = Inr (a, \<tau>')" "same_view rel \<sigma>' \<tau>'"
  using assms unfolding same_result_def
  by (cases x; cases y) auto

lemma same_result_Inl: "same_result rel (Inl e) (Inl e)"
  by (simp add: same_result_def)

lemma same_result_Inr: "same_view rel \<sigma>' \<tau>' \<Longrightarrow> same_result rel (Inr (a, \<sigma>')) (Inr (a, \<tau>'))"
  by (simp add: same_result_def)

lemma same_draws_randbelow:
  assumes "same_draws rel R1 R2" and "rel s t"
  shows "fst (rs_randbelow R1 n s) = fst (rs_randbelow R2 n t)"
    and "rel (snd (rs_randbelow R1 n s)) (snd (rs_randbelow R2 n t))"
  using assms unfolding same_draws_def by blast+

lemma same_draws_random:
  assumes "same_draws rel R1 R2" and "rel s t"
  shows "fst (rs_random R1 s) = fst (rs_random R2 t)"
    and "rel (snd (rs_random R1 s)) (snd (rs_random R2 t))"
  using assms unfolding same_draws_def by blast+

lemma same_view_rng:
  "same_view rel \<sigma> \<tau> \<Longrightarrow> rel s t \<Longrightarrow> same_view rel (\<sigma>\<lparr>rng := s\<rparr>) (\<tau>\<lparr>rng := t\<rparr>)"
  by (simp add: same_view_def)

lemma choice_same:
  assumes "same_draws rel R1 R2" and "same_view rel \<sigma> \<tau>"
  shows "same_result rel (choice R1 seq \<sigma>) (choice R2 seq \<tau>)"
proof -
  from assms(2) have r: "rel (rng \<sigma>) (rng \<tau>)"
    by (simp add: same_view_def)
  note d = same_draws_randbelow [OF assms(1) r, of "length seq"]
  show ?thesis
    using d same_view_rng [OF assms(2) d(2)]
    by (simp add: choice_def case_prod_beta same_result_Inl same_result_Inr)
qed

lemma random_float_same:
  assumes "same_draws rel R1 R2" and "same_view rel \<sigma> \<tau>"
  shows "fst (random_float R1 \<sigma>) = fst (random_float R2 \<tau>)"
    and "same_view rel (snd (random_float R1 \<sigma>)) (snd (random_float R2 \<tau>))"
proof -
  from assms(2) have r: "rel (rng \<sigma>) (rng \<tau>)"
    by (simp add: same_view_def)
  note d = same_draws_random [OF assms(1) r]
  show "fst (random_float R1 \<sigma>) = fst (random_float R2 \<tau>)"
    using d(1) by (simp add: random_float_def case_prod_beta)
  show "same_view rel (snd (random_float R1 \<sigma>)) (snd (random_float R2 \<tau>))"
    using same_view_rng [OF assms(2) d(2)] by (simp add: random_float_def case_prod_beta)
qed

lemma generate_sample_same:
  assumes "same_draws rel R1 R2" and "same_view rel \<sigma> \<tau>"
  shows "same_result rel (generate_sample R1 agent intent \<sigma>) (generate_sample R2 agent intent \<tau>)"
proof -
  from assms(2) have t: "TEMPLATES_var \<sigma> = TEMPLATES_var \<tau>"
    by (simp add: same_view_def)
  from choice_same [OF assms, of "TEMPLATES_var \<sigma>"] show ?thesis
  proof (cases rule: same_resultE)
    case (fail e)
    then show ?thesis
      using t by (simp add: generate_sample_def same_result_Inl)
  next
    case (return template \<sigma>1 \<tau>1)
    note f = random_float_same [OF assms(1) return(3)]
    show ?thesis
    proof (cases "format template intent")
      case (Inl e)
      with return t show ?thesis
        by (simp add: generate_sample_def same_result_Inl)
    next
      case (Inr utterance)
      with return t f show ?thesis
        by (simp add: generate_sample_def case_prod_beta same_result_Inr)
    qed
  qed
qed

lemma samples_loop_same:
  assumes "same_draws rel R1 R2"
  shows "same_view rel \<sigma> \<tau> \<Longrightarrow>
    same_result rel (samples_loop R1 agent intent n ds \<sigma>) (samples_loop R2 agent intent n ds \<tau>)"
proof (induction n arbitrary: ds \<sigma> \<tau>)
  case 0
  then show ?case by (simp add: same_result_Inr)
next
  case (Suc n)
  from generate_sample_same [OF assms Suc.prems, of agent intent] show ?case
  proof (cases rule: same_resultE)
    case (fail e)
    then show ?thesis by (simp add: same_result_Inl)
  next
    case (return r \<sigma>1 \<tau>1)
    with Suc.IH [OF return(3), of "ds @ [r]"] show ?thesis by simp
  qed
qed

lemma intents_loop_same:
  assumes "same_draws rel R1 R2"
  shows "same_view rel \<sigma> \<tau> \<Longrightarrow>
    same_result rel (intents_loop R1 agent intents ds \<sigma>) (intents_loop R2 agent intents ds \<tau>)"
proof (induction intents arbitrary: ds \<sigma> \<tau>)
  case Nil
  then show ?case by (simp add: same_result_Inr)
next
  case (Cons intent intents)
  from samples_loop_same [OF assms Cons.prems, of agent intent SAMPLES_PER_INTENT ds] show ?case
  proof (cases rule: same_resultE)
    case (fail e)
    then show ?thesis by (simp add: same_result_Inl)
  next
    case (return ds1 \<sigma>1 \<tau>1)
    with Cons.IH [OF return(3), of ds1] show ?thesis by simp
  qed
qed

lemma agents_loop_same:
  assumes "same_draws rel R1 R2"
  shows "same_view rel \<sigma> \<tau> \<Longrightarrow>
    same_result rel (agents_loop R1 items ds \<sigma>) (agents_loop R2 items ds \<tau>)"
proof (induction items arbitrary: ds \<sigma> \<tau>)
  case Nil
  then show ?case by (simp add: same_result_Inr)
next
  case (Cons item items)
  obtain agent intents where item: "item = (agent, intents)"
    by (cases item)
  from intents_loop_same [OF assms Cons.prems, of agent intents ds] show ?case
  proof (cases rule: same_resultE)
    case (fail e)
    then show ?thesis using item by (simp add: same_result_Inl)
  next
    case (return ds1 \<sigma>1 \<tau>1)
    with Cons.IH [OF return(3), of ds1] item show ?thesis by simp
  qed
qed

lemma shuffle_loop_same:
  assumes "same_draws rel R1 R2"
  shows "rel s t \<Longrightarrow>
    rel_sum (=) (rel_prod (=) rel) (shuffle_loop R1 k x s) (shuffle_loop R2 k x t)"
proof (induction k arbitrary: x s t)
  case 0
  then show ?case by simp
next
  case (Suc k)
  note d = same_draws_randbelow [OF assms Suc.prems, of "Suc k + 1"]
  show ?case
    using d(1) Suc.IH [OF d(2)]
    by (simp add: case_prod_beta)
qed

lemma shuffle_same:
  assumes "same_draws rel R1 R2" and "same_view rel \<sigma> \<tau>"
  shows "same_result rel (shuffle R1 x \<sigma>) (shuffle R2 x \<tau>)"
proof -
  from assms(2) have r: "rel (rng \<sigma>) (rng \<tau>)"
    by (simp add: same_view_def)
  from shuffle_loop_same [OF assms(1) r, of "length x - 1" x] show ?thesis
    using same_view_rng [OF assms(2)]
    by (cases "shuffle_loop R1 (length x - 1) x (rng \<sigma>)";
        cases "shuffle_loop R2 (length x - 1) x (rng \<tau>)")
      (auto simp: shuffle_def same_result_Inl same_result_Inr)
qed

lemma build_dataset_same:
  assumes "same_draws rel R1 R2" and "same_view rel \<sigma> \<tau>"
  shows "same_result rel (build_dataset R1 \<sigma>) (build_dataset R2 \<tau>)"
proof -
  from assms(2) have a: "AGENTS_var \<sigma> = AGENTS_var \<tau>"
    by (simp add: same_view_def)
  from agents_loop_same [OF assms, of "AGENTS_var \<sigma>" "[]"] show ?thesis
  proof (cases rule: same_resultE)
    case (fail e)
    then show ?thesis
      using a by (simp add: build_dataset_def accumulate_def same_result_Inl)
  next
    case (return acc \<sigma>1 \<tau>1)
    with shuffle_same [OF assms(1) return(3), of acc] a show ?thesis
      by (simp add: build_dataset_def accumulate_def)
  qed
qed

subsection \<open>Lower case, and the one way to fill a template\<close>







subsection \<open>The text of a line of the file\<close>

lemma escaped_plain: "plain s \<Longrightarrow> concat (map escape_char s) = s"
  unfolding plain_def by (induction s) simp_all

lemma encode_plain: "plain s \<Longrightarrow> encode_basestring_ascii s = quoted s"
  by (simp add: encode_basestring_ascii_def quoted_def escaped_plain)

lemma plain_append: "plain (xs @ ys) \<longleftrightarrow> plain xs \<and> plain ys"
  unfolding plain_def by auto

lemma plain_TEMPLATES: "\<forall>t \<in> set TEMPLATES. plain t"
  by (simp add: TEMPLATES_def plain_def escape_char_def)

lemma plain_catalog: "\<forall>(agent, intent) \<in> set (catalog_pairs AGENTS). plain agent \<and> plain intent"
  unfolding catalog_pairs_AGENTS by (simp add: plain_def escape_char_def)

lemma plain_small_letters: "plain ''abcdefghijklmnopqrstuvwxyz''"
  by (simp add: plain_def escape_char_def)

lemma lower_char_range: "lower_char c = c \<or> lower_char c \<in> set ''abcdefghijklmnopqrstuvwxyz''"
proof (cases "map_of (zip ''ABCDEFGHIJKLMNOPQRSTUVWXYZ'' ''abcdefghijklmnopqrstuvwxyz'') c")
  case None
  then show ?thesis by (simp only: lower_char_def option.case) simp
next
  case (Some l)
  then have "(c, l) \<in> set (zip ''ABCDEFGHIJKLMNOPQRSTUVWXYZ'' ''abcdefghijklmnopqrstuvwxyz'')"
    by (rule map_of_SomeD)
  then have "l \<in> set ''abcdefghijklmnopqrstuvwxyz''"
    by (rule set_zip_rightD)
  with Some show ?thesis by (simp only: lower_char_def option.case) simp
qed

lemma plain_lower:
  assumes "plain s"
  shows "plain (lower s)"
  unfolding plain_def
proof
  fix d assume "d \<in> set (lower s)"
  then obtain c where c: "c \<in> set s" and d: "d = lower_char c"
    by (auto simp: lower_def)
  from lower_char_range [of c] show "escape_char d = [d]"
  proof
    assume "lower_char c = c"
    with c d assms show ?thesis by (simp add: plain_def)
  next
    assume "lower_char c \<in> set ''abcdefghijklmnopqrstuvwxyz''"
    with d plain_small_letters show ?thesis
      unfolding plain_def by blast
  qed
qed

lemma fills_plain:
  assumes "fills t intent u" and "plain t" and "plain intent"
  shows "plain u"
proof -
  from assms(1) obtain pre post where "t = pre @ ''{intent}'' @ post" "u = pre @ intent @ post"
    unfolding fills_def by blast
  with assms(2,3) show ?thesis
    unfolding plain_def by auto
qed

lemma sample_of_instruction:
  assumes "sample_of R agent intent r"
  shows "rec_instruction r = ''Route the user query to the correct internal agent. Output JSON.''"
proof -
  from assms obtain \<sigma> \<sigma>' where "generate_sample R agent intent \<sigma> = Inr (r, \<sigma>')"
    unfolding sample_of_def by blast
  then show ?thesis
    by (auto simp: generate_sample_def split: sum.splits prod.splits)
qed

lemma sample_of_plain_input:
  assumes "rng_ok R" and "sample_of R agent intent r" and "plain intent"
  shows "plain (rec_input r)"
proof -
  from sample_of_input [OF assms(1,2)] obtain k u where
    k: "k < length TEMPLATES" and f: "fills (TEMPLATES ! k) intent u"
    and i: "rec_input r = u \<or> rec_input r = lower u"
    by blast
  from k have "plain (TEMPLATES ! k)"
    using plain_TEMPLATES nth_mem by blast
  with f assms(3) have "plain u"
    using fills_plain by blast
  with i plain_lower show ?thesis by auto
qed

lemma escaped_append: "concat (map escape_char (xs @ ys)) = concat (map escape_char xs) @ concat (map escape_char ys)"
  by simp

lemma escaped_quoted: "plain s \<Longrightarrow> concat (map escape_char (quoted s)) = bquoted s"
  by (simp add: quoted_def bquoted_def escaped_plain escape_char_def)

lemma routing_decision_text:
  assumes "plain agent" and "plain intent"
  shows "json_dumps (routing_decision agent intent) =
     ''{'' @ quoted ''target'' @ '': '' @ quoted agent @ '', ''
       @ quoted ''confidence'' @ '': 1.0, ''
       @ quoted ''reason'' @ '': '' @ quoted (''Matched intent: '' @ intent) @ ''}''"
proof -
  have "plain ''target''" "plain ''confidence''" "plain ''reason''" "plain ''Matched intent: ''"
    by (simp_all add: plain_def escape_char_def)
  moreover from this(4) assms(2) have "plain (''Matched intent: '' @ intent)"
    by (simp only: plain_append)
  ultimately show ?thesis
    using assms(1)
    by (simp add: json_dumps_def routing_decision_def encode_plain float_repr_def str_nat.simps)
qed

lemma escaped_routing_decision:
  assumes "plain agent" and "plain intent"
  shows "concat (map escape_char (json_dumps (routing_decision agent intent))) =
     ''{'' @ bquoted ''target'' @ '': '' @ bquoted agent @ '', ''
       @ bquoted ''confidence'' @ '': 1.0, ''
       @ bquoted ''reason'' @ '': '' @ bquoted (''Matched intent: '' @ intent) @ ''}''"
proof -
  have p: "plain ''target''" "plain ''confidence''" "plain ''reason''" "plain ''Matched intent: ''"
    "plain ''{''" "plain '': ''" "plain '', ''" "plain '': 1.0, ''" "plain ''}''"
    by (simp_all add: plain_def escape_char_def)
  from p(4) assms(2) have m: "plain (''Matched intent: '' @ intent)"
    by (simp only: plain_append)
  show ?thesis
    unfolding routing_decision_text [OF assms] escaped_append
    by (simp only: escaped_quoted [OF p(1)] escaped_quoted [OF p(2)] escaped_quoted [OF p(3)]
        escaped_quoted [OF m] escaped_quoted [OF assms(1)]
        escaped_plain [OF p(5)] escaped_plain [OF p(6)] escaped_plain [OF p(7)]
        escaped_plain [OF p(8)] escaped_plain [OF p(9)])
qed

lemma json_dumps_entry_text:
  assumes "rec_instruction r = ''Route the user query to the correct internal agent. Output JSON.''"
    and "plain (rec_input r)" and "routes_to r agent intent" and "plain agent" and "plain intent"
  shows "json_dumps_entry r = spec_line (rec_input r) agent intent"
proof -
  have p: "plain ''instruction''" "plain ''input''" "plain ''output''"
    "plain ''Route the user query to the correct internal agent. Output JSON.''"
    by (simp_all add: plain_def escape_char_def)
  have o: "encode_basestring_ascii (rec_output r) =
      quoted (''{'' @ bquoted ''target'' @ '': '' @ bquoted agent @ '', ''
       @ bquoted ''confidence'' @ '': 1.0, ''
       @ bquoted ''reason'' @ '': '' @ bquoted (''Matched intent: '' @ intent) @ ''}'')"
    using assms(3) escaped_routing_decision [OF assms(4,5)]
    by (simp add: routes_to_def encode_basestring_ascii_def quoted_def)
  show ?thesis
    unfolding json_dumps_entry_def json_dumps_def spec_line_def
    by (simp add: assms(1) encode_plain [OF p(1)] encode_plain [OF p(2)] encode_plain [OF p(3)]
        encode_plain [OF p(4)] encode_plain [OF assms(2)] o)
qed

lemma json_dumps_entry_inj:
  assumes "json_dumps_entry r = json_dumps_entry r'"
  shows "r = r'"
proof -
  let ?k1 = "''{'' @ encode_basestring_ascii ''instruction'' @ '': ''"
  let ?k2 = "'', '' @ encode_basestring_ascii ''input'' @ '': ''"
  let ?k3 = "'', '' @ encode_basestring_ascii ''output'' @ '': ''"
  have unfold: "\<And>r. json_dumps_entry r =
      ?k1 @ encode_basestring_ascii (rec_instruction r) @
      (?k2 @ encode_basestring_ascii (rec_input r) @
      (?k3 @ encode_basestring_ascii (rec_output r) @ ''}''))"
    by (simp add: json_dumps_entry_def json_dumps_def)
  from assms have
    "encode_basestring_ascii (rec_instruction r) @
      (?k2 @ encode_basestring_ascii (rec_input r) @
      (?k3 @ encode_basestring_ascii (rec_output r) @ ''}'')) =
     encode_basestring_ascii (rec_instruction r') @
      (?k2 @ encode_basestring_ascii (rec_input r') @
      (?k3 @ encode_basestring_ascii (rec_output r') @ ''}''))"
    unfolding unfold by (simp only: same_append_eq)
  from encode_basestring_ascii_unique [OF this] have a: "rec_instruction r = rec_instruction r'"
    and "encode_basestring_ascii (rec_input r) @
      (?k3 @ encode_basestring_ascii (rec_output r) @ ''}'') =
     encode_basestring_ascii (rec_input r') @
      (?k3 @ encode_basestring_ascii (rec_output r') @ ''}'')"
    by (simp_all only: same_append_eq)
  from encode_basestring_ascii_unique [OF this(2)] have b: "rec_input r = rec_input r'"
    and "encode_basestring_ascii (rec_output r) @ ''}'' =
     encode_basestring_ascii (rec_output r') @ ''}''"
    by (simp_all only: same_append_eq)
  from encode_basestring_ascii_unique [OF this(2)] have c: "rec_output r = rec_output r'"
    by simp
  from a b c show ?thesis by simp
qed

lemma dataset_lines:
  assumes "rng_ok R" and "loaded \<sigma>" and "build_dataset R \<sigma> = Inr (ds, \<sigma>')"
  shows "\<forall>entry \<in> set ds. \<exists>agent intent. routes_to entry agent intent
     \<and> json_dumps_entry entry = spec_line (rec_input entry) agent intent"
proof
  fix entry assume e: "entry \<in> set ds"
  from dataset_of_catalog [OF assms(1,2)] assms(3) have
    "\<forall>r \<in> set ds. \<exists>p \<in> set (catalog_pairs AGENTS). sample_of R (fst p) (snd p) r"
    by auto
  with e obtain a i where
    p: "(a, i) \<in> set (catalog_pairs AGENTS)" and so: "sample_of R a i entry"
    by force
  from p plain_catalog have pl: "plain a" "plain i"
    by auto
  have "json_dumps_entry entry = spec_line (rec_input entry) a i"
    using sample_of_instruction [OF so] sample_of_plain_input [OF assms(1) so pl(2)]
      sample_of_routes_to [OF so] pl
    by (rule json_dumps_entry_text)
  with sample_of_routes_to [OF so]
  show "\<exists>agent intent. routes_to entry agent intent
     \<and> json_dumps_entry entry = spec_line (rec_input entry) agent intent"
    by blast
qed

section \<open>Properties of the script\<close>

text \<open>
  C1. With a random source that keeps the library's promise, the generation pass of the
  loaded script returns a dataset, and the output of every record of it is the
  serialization of a routing decision; whatever agent and intent that decision names
  (they are unique), the agent is a key of the catalog and the intent is in the list that
  the catalog holds for that agent.
\<close>

theorem dataset_routes_into_catalog:
  assumes "rng_ok R" and "loaded \<sigma>"
  shows "\<exists>ds \<sigma>'. build_dataset R \<sigma> = Inr (ds, \<sigma>')
    \<and> (\<forall>r \<in> set ds.
         (\<exists>agent intent. routes_to r agent intent)
         \<and> (\<forall>agent intent. routes_to r agent intent \<longrightarrow>
               agent \<in> fst ` set AGENTS
               \<and> (\<exists>intents. map_of AGENTS agent = Some intents \<and> intent \<in> set intents)))"
proof -
  from dataset_of_catalog [OF assms] obtain ds \<sigma>' where
    b: "build_dataset R \<sigma> = Inr (ds, \<sigma>')"
    and s: "\<forall>r \<in> set ds. \<exists>p \<in> set (catalog_pairs AGENTS). sample_of R (fst p) (snd p) r"
    by blast
  have "(\<exists>agent intent. routes_to r agent intent)
      \<and> (\<forall>agent intent. routes_to r agent intent \<longrightarrow>
            agent \<in> fst ` set AGENTS
            \<and> (\<exists>intents. map_of AGENTS agent = Some intents \<and> intent \<in> set intents))"
    if "r \<in> set ds" for r
  proof -
    from s that obtain a i where
      p: "(a, i) \<in> set (catalog_pairs AGENTS)" and so: "sample_of R a i r"
      by force
    from so have rt: "routes_to r a i"
      by (rule sample_of_routes_to)
    from p obtain intents where l: "map_of AGENTS a = Some intents" "i \<in> set intents"
      unfolding catalog_pairs_lookup by blast
    from l(1) have "(a, intents) \<in> set AGENTS"
      by (rule map_of_SomeD)
    then have k: "a \<in> fst ` set AGENTS"
      by force
    have "agent = a \<and> intent = i" if "routes_to r agent intent" for agent intent
      using routes_to_unique [OF that rt] .
    with rt l k show ?thesis by blast
  qed
  with b show ?thesis by blast
qed

theorem dataset_routes_into_catalog_witness:
  "rng_ok counter_source \<and> loaded (start_state 0)
   \<and> (\<exists>ds \<sigma>'. build_dataset counter_source (start_state 0) = Inr (ds, \<sigma>')
       \<and> (\<forall>r \<in> set ds. \<exists>agent intents intent. routes_to r agent intent
             \<and> map_of AGENTS agent = Some intents \<and> intent \<in> set intents))"
proof -
  from dataset_routes_into_catalog [OF rng_ok_counter_source loaded_start_state, of 0]
  obtain ds \<sigma>' where
    "build_dataset counter_source (start_state 0) = Inr (ds, \<sigma>')"
    "\<forall>r \<in> set ds. \<exists>agent intents intent. routes_to r agent intent
             \<and> map_of AGENTS agent = Some intents \<and> intent \<in> set intents"
    by blast
  with rng_ok_counter_source loaded_start_state show ?thesis by blast
qed

text \<open>
  C2. With the templates of the script and a random source that keeps the library's promise,
  the generation pass returns a dataset, and its length is the sum over the items of the
  catalog of the number of intents times \<open>SAMPLES_PER_INTENT\<close>, which is 50; with the
  catalog of the script the length is 800.
\<close>

theorem dataset_length:
  assumes "rng_ok R" and "TEMPLATES_var \<sigma> = TEMPLATES"
  shows "\<exists>ds \<sigma>'. build_dataset R \<sigma> = Inr (ds, \<sigma>')
    \<and> length ds = (\<Sum>(agent, intents) \<leftarrow> AGENTS_var \<sigma>. length intents * SAMPLES_PER_INTENT)
    \<and> SAMPLES_PER_INTENT = 50
    \<and> (AGENTS_var \<sigma> = AGENTS \<longrightarrow> length ds = 800)"
proof -
  from build_dataset_ok [OF assms] obtain acc ds \<sigma>' where
    b: "build_dataset R \<sigma> = Inr (ds, \<sigma>')"
    and m: "made_for R acc (expected_pairs (AGENTS_var \<sigma>))"
    and p: "mset ds = mset acc"
    by blast
  have "length ds = length acc"
    using p by (rule mset_eq_length)
  also have "\<dots> = length (expected_pairs (AGENTS_var \<sigma>))"
    using m by (rule made_for_length)
  finally have l: "length ds =
      (\<Sum>(agent, intents) \<leftarrow> AGENTS_var \<sigma>. length intents * SAMPLES_PER_INTENT)"
    by (simp only: length_expected_pairs)
  then have "AGENTS_var \<sigma> = AGENTS \<longrightarrow> length ds = 800"
    using catalog_size by simp
  with b l show ?thesis
    by (auto simp: SAMPLES_PER_INTENT_def)
qed

theorem dataset_length_witness:
  "rng_ok counter_source \<and> TEMPLATES_var (start_state 0) = TEMPLATES
   \<and> (\<exists>ds \<sigma>'. build_dataset counter_source (start_state 0) = Inr (ds, \<sigma>') \<and> length ds = 800)"
  using dataset_length [of counter_source "start_state 0"] rng_ok_counter_source
  by (auto simp: start_state_fields)



text \<open>
  C4. With a random source that keeps the library's promise, the loaded script accumulates
  a sequence whose records are made, position by position, for the pairs of the catalog in
  catalog order (agents, then intents, then the 50 repetitions), and the dataset that the
  shuffle returns is a permutation of that sequence: for every pair of the catalog it
  holds exactly \<open>SAMPLES_PER_INTENT\<close> records that \<open>generate_sample\<close> returns for that
  pair, and every record of it is one that \<open>generate_sample\<close> returns for a pair of the
  catalog.
\<close>

theorem shuffled_dataset_is_permutation:
  assumes "rng_ok R" and "loaded \<sigma>"
  shows "\<exists>acc \<sigma>1 ds \<sigma>'.
      accumulate R \<sigma> = Inr (acc, \<sigma>1)
    \<and> shuffle R acc \<sigma>1 = Inr (ds, \<sigma>')
    \<and> build_dataset R \<sigma> = Inr (ds, \<sigma>')
    \<and> made_for R acc (expected_pairs AGENTS)
    \<and> mset ds = mset acc
    \<and> (\<forall>(agent, intent) \<in> set (catalog_pairs AGENTS).
          size (filter_mset (sample_of R agent intent) (mset ds)) = SAMPLES_PER_INTENT)
    \<and> (\<forall>r \<in># mset ds. \<exists>(agent, intent) \<in> set (catalog_pairs AGENTS). sample_of R agent intent r)"
proof -
  from dataset_of_catalog [OF assms] obtain acc \<sigma>1 ds \<sigma>' where
    b: "accumulate R \<sigma> = Inr (acc, \<sigma>1)" "build_dataset R \<sigma> = Inr (ds, \<sigma>')"
       "made_for R acc (expected_pairs AGENTS)" "mset ds = mset acc"
    and s: "\<forall>r \<in> set ds. \<exists>p \<in> set (catalog_pairs AGENTS). sample_of R (fst p) (snd p) r"
    by blast
  from b(1,2) have sh: "shuffle R acc \<sigma>1 = Inr (ds, \<sigma>')"
    by (simp add: build_dataset_def)
  have c: "size (filter_mset (sample_of R agent intent) (mset ds)) = SAMPLES_PER_INTENT"
    if "(agent, intent) \<in> set (catalog_pairs AGENTS)" for agent intent
  proof -
    have "size (filter_mset (sample_of R agent intent) (mset ds))
        = length (filter (sample_of R agent intent) acc)"
      unfolding b(4) by (simp flip: mset_filter)
    also have "\<dots> = count_list (expected_pairs AGENTS) (agent, intent)"
      using b(3) by (rule count_made_for)
    also have "\<dots> = SAMPLES_PER_INTENT * count_list (catalog_pairs AGENTS) (agent, intent)"
      by (rule count_list_expected_pairs)
    also have "count_list (catalog_pairs AGENTS) (agent, intent) = 1"
      using distinct_catalog_pairs_AGENTS that by (rule count_list_distinct)
    finally show ?thesis by simp
  qed
  from s have e: "\<forall>r \<in># mset ds. \<exists>(agent, intent) \<in> set (catalog_pairs AGENTS). sample_of R agent intent r"
    by fastforce
  from b sh c e show ?thesis by blast
qed

theorem shuffled_dataset_is_permutation_witness:
  "rng_ok counter_source \<and> loaded (start_state 0)
   \<and> (\<exists>acc \<sigma>1 ds \<sigma>'. accumulate counter_source (start_state 0) = Inr (acc, \<sigma>1)
       \<and> build_dataset counter_source (start_state 0) = Inr (ds, \<sigma>')
       \<and> mset ds = mset acc
       \<and> size (filter_mset (sample_of counter_source ''agent_it'' ''vpn access'') (mset ds)) = 50)"
proof -
  have p: "(''agent_it'', ''vpn access'') \<in> set (catalog_pairs AGENTS)"
    unfolding catalog_pairs_AGENTS by simp
  from shuffled_dataset_is_permutation [OF rng_ok_counter_source loaded_start_state, of 0]
  obtain acc \<sigma>1 ds \<sigma>' where
    "accumulate counter_source (start_state 0) = Inr (acc, \<sigma>1)"
    "build_dataset counter_source (start_state 0) = Inr (ds, \<sigma>')"
    "mset ds = mset acc"
    "\<forall>(agent, intent) \<in> set (catalog_pairs AGENTS).
          size (filter_mset (sample_of counter_source agent intent) (mset ds)) = SAMPLES_PER_INTENT"
    by blast
  with p rng_ok_counter_source loaded_start_state show ?thesis
    by (auto simp: SAMPLES_PER_INTENT_def)
qed

text \<open>
  C5. Two runs of the generation pass whose random sources make the same draws, from
  states with the same catalog and the same templates, have the same outcome: the same
  dataset, or the same exception. The files, the standard output and the environment's
  say on file operations have no part in it. With the globals of the script and sources
  that keep the library's promise, the outcome is a dataset, the same in both runs.
\<close>

theorem same_seed_same_dataset:
  assumes "same_draws rel R1 R2" and "rel (rng \<sigma>) (rng \<tau>)"
    and "AGENTS_var \<sigma> = AGENTS_var \<tau>" and "TEMPLATES_var \<sigma> = TEMPLATES_var \<tau>"
  shows "map_sum id fst (build_dataset R1 \<sigma>) = map_sum id fst (build_dataset R2 \<tau>)
    \<and> (rng_ok R1 \<longrightarrow> loaded \<sigma> \<longrightarrow>
         (\<exists>ds \<sigma>' \<tau>'. build_dataset R1 \<sigma> = Inr (ds, \<sigma>') \<and> build_dataset R2 \<tau> = Inr (ds, \<tau>')))"
proof -
  have "same_view rel \<sigma> \<tau>"
    using assms(2-4) by (simp add: same_view_def)
  from build_dataset_same [OF assms(1) this] show ?thesis
  proof (cases rule: same_resultE)
    case (fail e)
    moreover have "\<exists>ds \<sigma>'. build_dataset R1 \<sigma> = Inr (ds, \<sigma>')" if "rng_ok R1" "loaded \<sigma>"
      using build_dataset_loaded [OF that] by blast
    ultimately show ?thesis by auto
  next
    case (return ds \<sigma>' \<tau>')
    then show ?thesis by simp
  qed
qed

theorem same_seed_same_dataset_witness:
  "same_draws (=) counter_source counter_source
   \<and> rng_ok counter_source \<and> loaded (start_state 7)
   \<and> (\<exists>ds \<sigma>' \<tau>'. build_dataset counter_source (start_state 7) = Inr (ds, \<sigma>')
        \<and> build_dataset counter_source ((start_state 7)\<lparr>stdout := [''an earlier run''], io_budget := Some 0\<rparr>)
            = Inr (ds, \<tau>'))"
proof -
  have d: "same_draws (=) counter_source counter_source"
    by (simp add: same_draws_def)
  from same_seed_same_dataset [OF d, of "start_state 7"
      "(start_state 7)\<lparr>stdout := [''an earlier run''], io_budget := Some 0\<rparr>"]
    rng_ok_counter_source loaded_start_state [of 7] d
  show ?thesis by simp
qed

text \<open>
  C6, as the script has it. With a random source that keeps the library's promise, the
  loaded script runs to its end when the standard output takes the messages and the
  environment lets the 802 file operations succeed (opening the file, the 800 writes,
  closing it). Otherwise it raises \<^verbatim>\<open>UnicodeEncodeError\<close>, when the encoding of the
  standard output cannot encode the pictograph of the first message, or \<^verbatim>\<open>OSError\<close>,
  when the standard output is broken or a file operation fails; it raises nothing else.
  \<open>generate_sample\<close> returns a record for every agent of the catalog and every intent of
  its list.
\<close>

theorem reachable_failures:
  assumes "rng_ok R" and "loaded \<sigma>"
  shows "(stdout_ok \<sigma> \<and> io_allows 802 \<sigma> \<longrightarrow> (\<exists>\<sigma>'. main R \<sigma> = Inr \<sigma>'))
    \<and> (\<not> stdout_unicode \<sigma> \<longrightarrow> main R \<sigma> = Inl UnicodeEncodeError)
    \<and> (stdout_unicode \<sigma> \<and> stdout_broken \<sigma> \<longrightarrow> main R \<sigma> = Inl OSError)
    \<and> (stdout_ok \<sigma> \<and> \<not> io_allows 802 \<sigma> \<longrightarrow> main R \<sigma> = Inl OSError)
    \<and> (\<forall>e. main R \<sigma> = Inl e \<longrightarrow> e = OSError \<or> e = UnicodeEncodeError)
    \<and> (\<forall>agent intents intent. map_of AGENTS agent = Some intents \<longrightarrow> intent \<in> set intents \<longrightarrow>
          (\<exists>r \<sigma>'. generate_sample R agent intent \<sigma> = Inr (r, \<sigma>')))"
proof -
  have ok: "\<exists>\<sigma>'. main R \<sigma> = Inr \<sigma>'" if "stdout_ok \<sigma>" "io_allows 802 \<sigma>"
    using main_ok [OF assms that(2,1)] by blast
  have enc: "main R \<sigma> = Inl UnicodeEncodeError" if "\<not> stdout_unicode \<sigma>"
    using that by (rule main_not_encoded)
  have brk: "main R \<sigma> = Inl OSError" if "stdout_unicode \<sigma>" "stdout_broken \<sigma>"
    using that by (rule main_broken)
  have io: "main R \<sigma> = Inl OSError" if "stdout_ok \<sigma>" "\<not> io_allows 802 \<sigma>"
    using assms that(2,1) by (rule main_fail)
  have only: "e = OSError \<or> e = UnicodeEncodeError" if "main R \<sigma> = Inl e" for e
  proof (cases "stdout_unicode \<sigma>")
    case False
    with enc that show ?thesis by simp
  next
    case True
    show ?thesis
    proof (cases "stdout_broken \<sigma>")
      case True
      with \<open>stdout_unicode \<sigma>\<close> brk that show ?thesis by simp
    next
      case False
      with \<open>stdout_unicode \<sigma>\<close> have s: "stdout_ok \<sigma>"
        by (simp add: stdout_ok_def)
      show ?thesis
        using ok [OF s] io [OF s] that by (cases "io_allows 802 \<sigma>") auto
    qed
  qed
  have gs: "\<exists>r \<sigma>'. generate_sample R agent intent \<sigma> = Inr (r, \<sigma>')" for agent intent
    using generate_sample_total [OF assms(1), of \<sigma> agent intent] assms(2)
    by (auto simp: loaded_def)
  from ok enc brk io only gs show ?thesis by blast
qed

theorem reachable_failures_witness:
  "rng_ok counter_source \<and> loaded (start_state 0)
   \<and> stdout_ok (start_state 0) \<and> io_allows 802 (start_state 0)
   \<and> (\<exists>\<sigma>'. main counter_source (start_state 0) = Inr \<sigma>')
   \<and> map_of AGENTS ''agent_hr'' = Some [''payroll issue'', ''holiday request'', ''benefits question'', ''onboarding'']
   \<and> (\<exists>r \<sigma>'. generate_sample counter_source ''agent_hr'' ''onboarding'' (start_state 0) = Inr (r, \<sigma>'))
   \<and> stdout_ok ((start_state 0)\<lparr>io_budget := Some 801\<rparr>)
   \<and> \<not> io_allows 802 ((start_state 0)\<lparr>io_budget := Some 801\<rparr>)
   \<and> main counter_source ((start_state 0)\<lparr>io_budget := Some 801\<rparr>) = Inl OSError
   \<and> stdout_unicode ((start_state 0)\<lparr>stdout_broken := True\<rparr>)
   \<and> stdout_broken ((start_state 0)\<lparr>stdout_broken := True\<rparr>)
   \<and> main counter_source ((start_state 0)\<lparr>stdout_broken := True\<rparr>) = Inl OSError"
proof -
  have a: "io_allows 802 (start_state 0)"
    by (simp add: io_allows_def start_state_fields)
  have o: "stdout_ok (start_state 0)"
    by (simp add: stdout_ok_def start_state_fields)
  have m: "map_of AGENTS ''agent_hr'' = Some [''payroll issue'', ''holiday request'', ''benefits question'', ''onboarding'']"
    by (simp add: AGENTS_def)
  have l: "loaded ((start_state 0)\<lparr>io_budget := Some 801\<rparr>)"
    using loaded_start_state [of 0] by (simp add: loaded_def)
  have o': "stdout_ok ((start_state 0)\<lparr>io_budget := Some 801\<rparr>)"
    by (simp add: stdout_ok_def start_state_fields)
  have n: "\<not> io_allows 802 ((start_state 0)\<lparr>io_budget := Some 801\<rparr>)"
    by (simp add: io_allows_def)
  have l2: "loaded ((start_state 0)\<lparr>stdout_broken := True\<rparr>)"
    using loaded_start_state [of 0] by (simp add: loaded_def)
  have u2: "stdout_unicode ((start_state 0)\<lparr>stdout_broken := True\<rparr>)"
    by (simp add: start_state_fields)
  have b2: "stdout_broken ((start_state 0)\<lparr>stdout_broken := True\<rparr>)"
    by simp
  note t1 = reachable_failures [OF rng_ok_counter_source loaded_start_state [of 0]]
  note t2 = reachable_failures [OF rng_ok_counter_source l]
  note t3 = reachable_failures [OF rng_ok_counter_source l2]
  from t1 o a have r1: "\<exists>\<sigma>'. main counter_source (start_state 0) = Inr \<sigma>'"
    by blast
  from t1 have "\<forall>agent intents intent. map_of AGENTS agent = Some intents \<longrightarrow> intent \<in> set intents \<longrightarrow>
          (\<exists>r \<sigma>'. generate_sample counter_source agent intent (start_state 0) = Inr (r, \<sigma>'))"
    by (elim conjE)
  from this [rule_format, OF m] have
    r2: "\<exists>r \<sigma>'. generate_sample counter_source ''agent_hr'' ''onboarding'' (start_state 0) = Inr (r, \<sigma>')"
    by simp
  from t2 o' n have r3: "main counter_source ((start_state 0)\<lparr>io_budget := Some 801\<rparr>) = Inl OSError"
    by blast
  from t3 u2 b2 have r4: "main counter_source ((start_state 0)\<lparr>stdout_broken := True\<rparr>) = Inl OSError"
    by blast
  from rng_ok_counter_source loaded_start_state [of 0] o a r1 m r2 o' n r3 u2 b2 r4 show ?thesis
    by (intro conjI)
qed

text \<open>
  C6 as the specification words it, with an I/O error on the output file as the only
  failure, does not hold of the script: on a standard output in ASCII, with a random
  source that keeps the library's promise, the globals of the script and an environment in
  which no file operation fails, the first \<^verbatim>\<open>print\<close> raises \<^verbatim>\<open>UnicodeEncodeError\<close>.
\<close>

theorem only_io_failure_counterexample:
  "rng_ok counter_source
   \<and> loaded ((start_state 0)\<lparr>stdout_unicode := False\<rparr>)
   \<and> io_allows 802 ((start_state 0)\<lparr>stdout_unicode := False\<rparr>)
   \<and> main counter_source ((start_state 0)\<lparr>stdout_unicode := False\<rparr>) = Inl UnicodeEncodeError
   \<and> UnicodeEncodeError \<noteq> OSError"
proof -
  have l: "loaded ((start_state 0)\<lparr>stdout_unicode := False\<rparr>)"
    using loaded_start_state [of 0] by (simp add: loaded_def)
  have a: "io_allows 802 ((start_state 0)\<lparr>stdout_unicode := False\<rparr>)"
    by (simp add: io_allows_def start_state_fields)
  have m: "main counter_source ((start_state 0)\<lparr>stdout_unicode := False\<rparr>) = Inl UnicodeEncodeError"
    by (simp add: main_def print_def msg_start_def)
  from rng_ok_counter_source l a m show ?thesis by simp
qed

text \<open>
  C7. Called for the agent \<^verbatim>\<open>agent_it\<close> and the intent \<^verbatim>\<open>vpn access\<close>, when
  \<^verbatim>\<open>random.choice\<close> selects the template \<^verbatim>\<open>Who handles {intent}?\<close> and the float drawn
  is not below 0.1, \<open>generate_sample\<close> returns the record whose input is
  \<^verbatim>\<open>Who handles vpn access?\<close> and whose output is the serialization of the dict with
  target \<^verbatim>\<open>agent_it\<close>, confidence \<^verbatim>\<open>1.0\<close> and reason \<^verbatim>\<open>Matched intent: vpn access\<close>,
  which is the text given last.
\<close>

theorem example_scenario:
  assumes "choice R (TEMPLATES_var \<sigma>) \<sigma> = Inr (''Who handles {intent}?'', \<sigma>1)"
    and "random_float R \<sigma>1 = (u, \<sigma>2)"
    and "\<not> u < float_0_1"
  shows "generate_sample R ''agent_it'' ''vpn access'' \<sigma> =
      Inr (\<lparr>rec_instruction = ''Route the user query to the correct internal agent. Output JSON.'',
            rec_input = ''Who handles vpn access?'',
            rec_output = json_dumps [(''target'', JStr ''agent_it''),
                                     (''confidence'', JFloat 1),
                                     (''reason'', JStr ''Matched intent: vpn access'')]\<rparr>,
           \<sigma>2)
    \<and> json_dumps [(''target'', JStr ''agent_it''),
                   (''confidence'', JFloat 1),
                   (''reason'', JStr ''Matched intent: vpn access'')]
      = ''{'' @ quoted ''target'' @ '': '' @ quoted ''agent_it'' @ '', ''
          @ quoted ''confidence'' @ '': 1.0, ''
          @ quoted ''reason'' @ '': '' @ quoted ''Matched intent: vpn access'' @ ''}''"
proof -
  have f: "format ''Who handles {intent}?'' ''vpn access'' = Inr ''Who handles vpn access?''"
    by (simp add: format_def)
  have "generate_sample R ''agent_it'' ''vpn access'' \<sigma> =
      Inr (\<lparr>rec_instruction = ''Route the user query to the correct internal agent. Output JSON.'',
            rec_input = ''Who handles vpn access?'',
            rec_output = json_dumps [(''target'', JStr ''agent_it''),
                                     (''confidence'', JFloat 1),
                                     (''reason'', JStr ''Matched intent: vpn access'')]\<rparr>,
           \<sigma>2)"
    unfolding generate_sample_def assms(1) using assms(2,3) f
    by (simp add: routing_decision_def)
  moreover have "json_dumps [(''target'', JStr ''agent_it''),
                   (''confidence'', JFloat 1),
                   (''reason'', JStr ''Matched intent: vpn access'')]
      = ''{'' @ quoted ''target'' @ '': '' @ quoted ''agent_it'' @ '', ''
          @ quoted ''confidence'' @ '': 1.0, ''
          @ quoted ''reason'' @ '': '' @ quoted ''Matched intent: vpn access'' @ ''}''"
    by (simp add: json_dumps_def encode_basestring_ascii_def escape_char_def quoted_def
        float_repr_def str_nat.simps)
  ultimately show ?thesis by (rule conjI)
qed

theorem example_scenario_witness:
  "generate_sample counter_source ''agent_it'' ''vpn access'' (start_state 2) =
      Inr (\<lparr>rec_instruction = ''Route the user query to the correct internal agent. Output JSON.'',
            rec_input = ''Who handles vpn access?'',
            rec_output = json_dumps [(''target'', JStr ''agent_it''),
                                     (''confidence'', JFloat 1),
                                     (''reason'', JStr ''Matched intent: vpn access'')]\<rparr>,
           (start_state 2)\<lparr>rng := 4\<rparr>)"
proof -
  have c: "choice counter_source (TEMPLATES_var (start_state 2)) (start_state 2)
      = Inr (''Who handles {intent}?'', (start_state 2)\<lparr>rng := 3\<rparr>)"
    by (simp add: choice_def start_state_fields counter_source_def TEMPLATES_def)
  have r: "random_float counter_source ((start_state 2)\<lparr>rng := 3\<rparr>) = (3 / 8, (start_state 2)\<lparr>rng := 4\<rparr>)"
    by (simp add: random_float_def counter_source_def)
  have u: "\<not> (3 / 8 :: real) < float_0_1"
    by (simp add: float_0_1_def)
  from example_scenario [OF c r u] show ?thesis by (rule conjunct1)
qed

text \<open>
  C8. When the environment lets the file operations succeed and the standard output takes
  the messages, the loaded script (with a random source that keeps the library's promise)
  leaves in the output file exactly the lines of the records of the shuffled dataset, in
  the order of the dataset: for each record its serialization followed by a newline. The
  serialization of a record holds no newline; it is the line that the specification gives
  for the record's input and for the agent and the intent that its output names; and it
  is the serialization of no other record. The number of lines of the file is the length
  of the dataset, 800, and it is the number printed in the message that reports the count.
\<close>

theorem persisted_dataset:
  assumes "rng_ok R" and "loaded \<sigma>" and "io_allows 802 \<sigma>" and "stdout_ok \<sigma>"
  shows "\<exists>\<sigma>0 ds \<sigma>1 \<sigma>'.
      print msg_start \<sigma> = Inr \<sigma>0
    \<and> build_dataset R \<sigma>0 = Inr (ds, \<sigma>1)
    \<and> main R \<sigma> = Inr \<sigma>'
    \<and> files \<sigma>' filename = Some (concat (map (\<lambda>entry. json_dumps_entry entry @ [CHR 0x0A]) ds))
    \<and> (\<forall>entry \<in> set ds. CHR 0x0A \<notin> set (json_dumps_entry entry))
    \<and> (\<forall>entry \<in> set ds. \<exists>agent intent. routes_to entry agent intent
          \<and> json_dumps_entry entry = spec_line (rec_input entry) agent intent)
    \<and> (\<forall>entry entry'. json_dumps_entry entry = json_dumps_entry entry' \<longrightarrow> entry = entry')
    \<and> length (filter (\<lambda>c. c = CHR 0x0A)
         (concat (map (\<lambda>entry. json_dumps_entry entry @ [CHR 0x0A]) ds))) = length ds
    \<and> stdout \<sigma>' = stdout \<sigma> @ [msg_start, msg_generated (length ds), msg_next]
    \<and> msg_generated (length ds) =
        [CHR 0xE2, CHR 0x9C, CHR 0x85] @ '' Generated 800 examples in edgeneuro_training_data.jsonl''"
proof -
  from main_ok [OF assms] obtain ds \<sigma>1 where
    b: "build_dataset R (printed msg_start \<sigma>) = Inr (ds, \<sigma>1)"
       "rng_only (printed msg_start \<sigma>) \<sigma>1" "length ds = 800"
    and m: "main R \<sigma> = Inr (printed msg_next (printed (msg_generated (length ds))
          ((spend 802 \<sigma>1)\<lparr>files := (files \<sigma>1)(filename \<mapsto> jsonl ds)\<rparr>)))"
    by blast
  define \<sigma>' where "\<sigma>' = printed msg_next (printed (msg_generated (length ds))
          ((spend 802 \<sigma>1)\<lparr>files := (files \<sigma>1)(filename \<mapsto> jsonl ds)\<rparr>))"
  have p0: "print msg_start \<sigma> = Inr (printed msg_start \<sigma>)"
    using assms(4) by (rule print_ok)
  have lo: "loaded (printed msg_start \<sigma>)"
    using assms(2) by (simp add: loaded_def printed_fields)
  have j: "jsonl ds = concat (map (\<lambda>entry. json_dumps_entry entry @ [CHR 0x0A]) ds)"
    by (simp add: jsonl_def jsonl_line_def [abs_def])
  from m have m': "main R \<sigma> = Inr \<sigma>'"
    by (simp only: \<sigma>'_def)
  have f: "files \<sigma>' filename = Some (concat (map (\<lambda>entry. json_dumps_entry entry @ [CHR 0x0A]) ds))"
    unfolding \<sigma>'_def j [symmetric] by (simp add: printed_fields)
  have "stdout \<sigma>1 = stdout \<sigma> @ [msg_start]"
    using rng_only_fields(4) [OF b(2)] by (simp add: printed_fields)
  then have s: "stdout \<sigma>' = stdout \<sigma> @ [msg_start, msg_generated (length ds), msg_next]"
    unfolding \<sigma>'_def by (simp add: printed_fields spend_fields)
  have n: "length (filter (\<lambda>c. c = CHR 0x0A)
         (concat (map (\<lambda>entry. json_dumps_entry entry @ [CHR 0x0A]) ds))) = length ds"
    unfolding j [symmetric] by (rule newlines_jsonl)
  have g: "msg_generated (length ds) =
        [CHR 0xE2, CHR 0x9C, CHR 0x85] @ '' Generated 800 examples in edgeneuro_training_data.jsonl''"
    unfolding b(3) by (rule msg_generated_800)
  have e: "\<forall>entry \<in> set ds. CHR 0x0A \<notin> set (json_dumps_entry entry)"
    using json_dumps_entry_no_newline by blast
  have t: "\<forall>entry \<in> set ds. \<exists>agent intent. routes_to entry agent intent
          \<and> json_dumps_entry entry = spec_line (rec_input entry) agent intent"
    using assms(1) lo b(1) by (rule dataset_lines)
  have i: "\<forall>entry entry'. json_dumps_entry entry = json_dumps_entry entry' \<longrightarrow> entry = entry'"
    using json_dumps_entry_inj by blast
  from p0 b(1) m' f e t i n s g show ?thesis
    by (intro exI conjI)
qed

theorem persisted_dataset_witness:
  "rng_ok counter_source \<and> loaded (start_state 0) \<and> io_allows 802 (start_state 0)
   \<and> stdout_ok (start_state 0)
   \<and> (\<exists>ds \<sigma>'. main counter_source (start_state 0) = Inr \<sigma>'
        \<and> files \<sigma>' filename = Some (concat (map (\<lambda>entry. json_dumps_entry entry @ [CHR 0x0A]) ds))
        \<and> (\<forall>entry \<in> set ds. \<exists>agent intent.
              json_dumps_entry entry = spec_line (rec_input entry) agent intent)
        \<and> stdout \<sigma>' = [msg_start, msg_generated (length ds), msg_next])
   \<and> json_dumps_entry
        \<lparr>rec_instruction = ''Route the user query to the correct internal agent. Output JSON.'',
         rec_input = ''Who handles vpn access?'',
         rec_output = json_dumps [(''target'', JStr ''agent_it''),
                                  (''confidence'', JFloat 1),
                                  (''reason'', JStr ''Matched intent: vpn access'')]\<rparr>
       = spec_line ''Who handles vpn access?'' ''agent_it'' ''vpn access''"
proof -
  have a: "io_allows 802 (start_state 0)"
    by (simp add: io_allows_def start_state_fields)
  have o: "stdout_ok (start_state 0)"
    by (simp add: stdout_ok_def start_state_fields)
  from persisted_dataset [OF rng_ok_counter_source loaded_start_state [of 0] a o]
  obtain ds \<sigma>' where
    w: "main counter_source (start_state 0) = Inr \<sigma>'"
    "files \<sigma>' filename = Some (concat (map (\<lambda>entry. json_dumps_entry entry @ [CHR 0x0A]) ds))"
    "\<forall>entry \<in> set ds. \<exists>agent intent. routes_to entry agent intent
          \<and> json_dumps_entry entry = spec_line (rec_input entry) agent intent"
    "stdout \<sigma>' = stdout (start_state 0) @ [msg_start, msg_generated (length ds), msg_next]"
    by blast
  from w(3) have w3: "\<forall>entry \<in> set ds. \<exists>agent intent.
              json_dumps_entry entry = spec_line (rec_input entry) agent intent"
    by blast
  from w(4) have w4: "stdout \<sigma>' = [msg_start, msg_generated (length ds), msg_next]"
    by (simp add: start_state_fields)
  from w(1,2) w3 w4 have r: "\<exists>ds \<sigma>'. main counter_source (start_state 0) = Inr \<sigma>'
        \<and> files \<sigma>' filename = Some (concat (map (\<lambda>entry. json_dumps_entry entry @ [CHR 0x0A]) ds))
        \<and> (\<forall>entry \<in> set ds. \<exists>agent intent.
              json_dumps_entry entry = spec_line (rec_input entry) agent intent)
        \<and> stdout \<sigma>' = [msg_start, msg_generated (length ds), msg_next]"
    by (intro exI conjI)
  have x: "json_dumps_entry
        \<lparr>rec_instruction = ''Route the user query to the correct internal agent. Output JSON.'',
         rec_input = ''Who handles vpn access?'',
         rec_output = json_dumps [(''target'', JStr ''agent_it''),
                                  (''confidence'', JFloat 1),
                                  (''reason'', JStr ''Matched intent: vpn access'')]\<rparr>
       = spec_line ''Who handles vpn access?'' ''agent_it'' ''vpn access''"
    by (simp add: json_dumps_entry_def json_dumps_def encode_basestring_ascii_def escape_char_def
        spec_line_def quoted_def bquoted_def float_repr_def str_nat.simps)
  from rng_ok_counter_source loaded_start_state [of 0] a o r x show ?thesis
    by (intro conjI)
qed

text \<open>
  C9. Whenever \<open>generate_sample\<close> returns, and whenever the whole script runs to its end,
  the two module globals hold in the state left behind the values they held before: the
  catalog and the templates are never changed.
\<close>

theorem globals_never_mutated:
  "(generate_sample R agent intent \<sigma> = Inr (r, \<sigma>') \<longrightarrow>
      AGENTS_var \<sigma>' = AGENTS_var \<sigma> \<and> TEMPLATES_var \<sigma>' = TEMPLATES_var \<sigma>)
   \<and> (main R \<sigma> = Inr \<sigma>'' \<longrightarrow>
      AGENTS_var \<sigma>'' = AGENTS_var \<sigma> \<and> TEMPLATES_var \<sigma>'' = TEMPLATES_var \<sigma>)"
  using rng_only_fields(1,2) [OF generate_sample_frame, of R agent intent \<sigma> r \<sigma>']
    main_globals [of R \<sigma> \<sigma>'']
  by (simp add: globals_kept_def)

theorem globals_never_mutated_witness:
  "\<exists>r \<sigma>' \<sigma>''. generate_sample counter_source ''agent_hr'' ''onboarding'' (start_state 0) = Inr (r, \<sigma>')
     \<and> main counter_source (start_state 0) = Inr \<sigma>''
     \<and> AGENTS_var \<sigma>' = AGENTS \<and> TEMPLATES_var \<sigma>' = TEMPLATES
     \<and> AGENTS_var \<sigma>'' = AGENTS \<and> TEMPLATES_var \<sigma>'' = TEMPLATES"
proof -
  have a: "io_allows 802 (start_state 0)"
    by (simp add: io_allows_def start_state_fields)
  have o: "stdout_ok (start_state 0)"
    by (simp add: stdout_ok_def start_state_fields)
  from main_ok [OF rng_ok_counter_source loaded_start_state [of 0] a o] obtain \<sigma>'' where
    m: "main counter_source (start_state 0) = Inr \<sigma>''"
    by blast
  from generate_sample_total [OF rng_ok_counter_source start_state_fields(2) [of 0],
      of "''agent_hr''" "''onboarding''"]
  obtain r \<sigma>' where
    g: "generate_sample counter_source ''agent_hr'' ''onboarding'' (start_state 0) = Inr (r, \<sigma>')"
    by blast
  from globals_never_mutated [of counter_source "''agent_hr''" "''onboarding''" "start_state 0" r \<sigma>' \<sigma>'']
    g m show ?thesis
    by (auto simp: start_state_fields)
qed

text \<open>
  C10. With a random source that keeps the library's promise, the generation pass of the
  loaded script returns a dataset in which every record names an intent in its output, and
  the intent it names is in lower case already and occurs as a contiguous part of the
  record's input, lowercased or not.
\<close>

theorem intent_occurs_in_input:
  assumes "rng_ok R" and "loaded \<sigma>"
  shows "\<exists>ds \<sigma>'. build_dataset R \<sigma> = Inr (ds, \<sigma>')
    \<and> (\<forall>r \<in> set ds.
         (\<exists>agent intent. routes_to r agent intent)
         \<and> (\<forall>agent intent. routes_to r agent intent \<longrightarrow>
               lower intent = intent \<and> sublist intent (rec_input r)))"
proof -
  from dataset_of_catalog [OF assms] obtain ds \<sigma>' where
    b: "build_dataset R \<sigma> = Inr (ds, \<sigma>')"
    and s: "\<forall>r \<in> set ds. \<exists>p \<in> set (catalog_pairs AGENTS). sample_of R (fst p) (snd p) r"
    by blast
  have "(\<exists>agent intent. routes_to r agent intent)
      \<and> (\<forall>agent intent. routes_to r agent intent \<longrightarrow>
            lower intent = intent \<and> sublist intent (rec_input r))"
    if "r \<in> set ds" for r
  proof -
    from s that obtain a i where
      p: "(a, i) \<in> set (catalog_pairs AGENTS)" and so: "sample_of R a i r"
      by force
    from so have rt: "routes_to r a i"
      by (rule sample_of_routes_to)
    from p have lo: "lower i = i"
      by (rule lower_catalog_intents)
    from sample_of_input [OF assms(1) so] obtain k u where
      "fills (TEMPLATES ! k) i u" "rec_input r = u \<or> rec_input r = lower u"
      by blast
    with fills_sublist [of "TEMPLATES ! k" i u] lo have su: "sublist i (rec_input r)"
      by auto
    have "agent = a \<and> intent = i" if "routes_to r agent intent" for agent intent
      using routes_to_unique [OF that rt] .
    with rt lo su show ?thesis by blast
  qed
  with b show ?thesis by blast
qed

theorem intent_occurs_in_input_witness:
  "rng_ok counter_source \<and> loaded (start_state 0)
   \<and> (\<exists>ds \<sigma>'. build_dataset counter_source (start_state 0) = Inr (ds, \<sigma>')
       \<and> (\<forall>r \<in> set ds. \<exists>agent intent. routes_to r agent intent \<and> sublist intent (rec_input r)))"
proof -
  from intent_occurs_in_input [OF rng_ok_counter_source loaded_start_state, of 0]
  obtain ds \<sigma>' where
    "build_dataset counter_source (start_state 0) = Inr (ds, \<sigma>')"
    "\<forall>r \<in> set ds. \<exists>agent intent. routes_to r agent intent \<and> sublist intent (rec_input r)"
    by blast
  with rng_ok_counter_source loaded_start_state show ?thesis by blast
qed


end
